theory Spec2Isabelle
  imports Complex_Main "HOL-Library.Word"
begin


section \<open>The model: barrier, scenarios and timed trials\<close>

subsection \<open>The busy-waiting barrier\<close>

text \<open>
  The class \<^verbatim>\<open>Barrier\<close> of \<^verbatim>\<open>benchmarks.cpp\<close> holds an atomic 32-bit counter
  \<^verbatim>\<open>_numThreadsArrived\<close>, initialised to 0 by its member initialiser, and the
  \<^verbatim>\<open>int\<close> \<^verbatim>\<open>_numTotalThreads\<close> given to the constructor. Both are 32-bit words here;
  the loop condition compares them as signed integers.
\<close>

record Barrier =
  numThreadsArrived :: "32 word"
  numTotalThreads :: "32 word"

text \<open>\<^verbatim>\<open>Barrier(int numTotalThreads)\<close>\<close>

definition new_Barrier :: "32 word \<Rightarrow> Barrier" where
  "new_Barrier numTotal = \<lparr>numThreadsArrived = 0, numTotalThreads = numTotal\<rparr>"

text \<open>\<^verbatim>\<open>++_numThreadsArrived\<close>: one atomic read-modify-write, wrapping at 32 bits.\<close>

definition arrive :: "Barrier \<Rightarrow> Barrier" where
  "arrive b = b\<lparr>numThreadsArrived := numThreadsArrived b + 1\<rparr>"

text \<open>The condition of the empty loop: \<^verbatim>\<open>_numThreadsArrived < _numTotalThreads\<close>.\<close>

definition must_wait :: "Barrier \<Rightarrow> bool" where
  "must_wait b = (sint (numThreadsArrived b) < sint (numTotalThreads b))"

text \<open>
  A thread's progress through one call of \<^verbatim>\<open>arriveAndWait()\<close>: it has not called yet,
  it has incremented the counter and is evaluating the loop condition again and again, or
  the call has returned.
\<close>

datatype call = NotCalled | Polling | Returned

text \<open>
  Threads sharing one barrier. The atomic counter is sequentially consistent (the default
  order of \<^verbatim>\<open>std::atomic\<close>), so an execution is an interleaving of the threads' atomic
  actions: a schedule is the list of thread indices in the order in which they act.
\<close>

record rendezvous =
  shared :: Barrier
  calls :: "call list"

definition rendezvous_init :: "32 word \<Rightarrow> nat \<Rightarrow> rendezvous" where
  "rendezvous_init numTotal m = \<lparr>shared = new_Barrier numTotal, calls = replicate m NotCalled\<rparr>"

text \<open>One atomic action of thread \<open>i\<close> inside \<^verbatim>\<open>arriveAndWait()\<close>.\<close>

definition arriveAndWait_step :: "nat \<Rightarrow> rendezvous \<Rightarrow> rendezvous" where
  "arriveAndWait_step i r =
     (if i < length (calls r) then
        (case calls r ! i of
           NotCalled \<Rightarrow> \<lparr>shared = arrive (shared r), calls = (calls r)[i := Polling]\<rparr>
         | Polling \<Rightarrow> (if must_wait (shared r) then r
                       else r\<lparr>calls := (calls r)[i := Returned]\<rparr>)
         | Returned \<Rightarrow> r)
      else r)"

fun run_calls :: "nat list \<Rightarrow> rendezvous \<Rightarrow> rendezvous" where
  "run_calls [] r = r"
| "run_calls (i # sched) r = run_calls sched (arriveAndWait_step i r)"

text \<open>The number of threads that have executed the increment.\<close>

definition called :: "rendezvous \<Rightarrow> nat" where
  "called r = length (filter (\<lambda>c. c \<noteq> NotCalled) (calls r))"

subsection \<open>Scenarios, threads and steps\<close>

text \<open>
  The five benchmark functions \<^verbatim>\<open>BM_falseSharing\<close>, \<^verbatim>\<open>BM_noFalseSharing\<close>, \<^verbatim>\<open>BM_useMutex\<close>,
  \<^verbatim>\<open>BM_useMutexNoContention\<close> and \<^verbatim>\<open>BM_useAtomic\<close> have one shape: inside
  \<^verbatim>\<open>for (auto _ : state)\<close> the controller constructs a barrier, starts the threads \<open>a\<close> and
  \<open>b\<close>, calls \<^verbatim>\<open>arriveAndWait()\<close>, reads the clock, joins \<open>a\<close> and \<open>b\<close>, reads the clock again
  and hands the difference to \<^verbatim>\<open>state.SetIterationTime\<close>. Each worker calls
  \<^verbatim>\<open>arriveAndWait()\<close> and then runs its loop of increments. The functions differ in the
  barrier's size, the iteration constant, the way \<open>++\<close> is guarded, the place where the
  counter is declared, and the alignment of the counter. A \<open>scenario\<close> records these; the
  step functions below are the common shape.
\<close>

text \<open>The two worker threads \<^verbatim>\<open>std::thread a\<close> and \<^verbatim>\<open>std::thread b\<close>.\<close>

datatype worker = ThreadA | ThreadB

text \<open>The thread running the benchmark function is the controller.\<close>

datatype thread = Controller | Worker worker

text \<open>
  An execution is an interleaving of the threads' actions and of the ticks of
  \<^verbatim>\<open>std::chrono::high_resolution_clock\<close>: a schedule is a list of events.
\<close>

datatype event = Tick | Act thread

text \<open>
  The counters: \<^verbatim>\<open>counterA.val\<close> and \<^verbatim>\<open>counterB.val\<close> of the false-sharing pair, the one
  \<^verbatim>\<open>counter\<close> of \<^verbatim>\<open>BM_useMutex\<close> and \<^verbatim>\<open>BM_useAtomic\<close>, and the \<^verbatim>\<open>counter\<close> local to a
  worker's lambda in \<^verbatim>\<open>BM_useMutexNoContention\<close>. All are 32 bits wide.
\<close>

datatype var = CounterA | CounterB | Counter | Local worker

text \<open>
  The mutexes: \<^verbatim>\<open>mtx\<close> of \<^verbatim>\<open>BM_useMutex\<close>, and the \<^verbatim>\<open>mtx\<close> local to a worker's lambda in
  \<^verbatim>\<open>BM_useMutexNoContention\<close>.
\<close>

datatype mutex = Mtx | LocalMtx worker

text \<open>
  How a loop body increments: \<^verbatim>\<open>++counterA.val\<close> on a plain integer (a load and a
  store), the same under \<^verbatim>\<open>std::lock_guard lk(mtx)\<close>, or \<^verbatim>\<open>++counter\<close> on a
  \<^verbatim>\<open>std::atomic_int32_t\<close> (one atomic read-modify-write).
\<close>

datatype guard = Unguarded | LockGuard | AtomicRMW

text \<open>
  Where the counter (and the mutex, if any) is declared: before \<^verbatim>\<open>for (auto _ : state)\<close>,
  inside that loop before the barrier, or inside the worker's lambda after
  \<^verbatim>\<open>arriveAndWait()\<close>. A declaration initialises the counter to 0.
\<close>

datatype scope = BenchmarkScope | TrialScope | WorkerScope

text \<open>
  \<open>barrier_size\<close> is the argument of \<^verbatim>\<open>Barrier barrier(...)\<close>, \<open>iterations\<close> the loop bound,
  \<open>target w\<close> the counter that worker \<open>w\<close> increments, \<open>mutex_of w\<close> the mutex its
  \<^verbatim>\<open>lock_guard\<close> takes (read only when the guard is \<open>LockGuard\<close>), \<open>counter_align\<close> the
  alignment in bytes of the counter's type.
\<close>

record scenario =
  barrier_size :: "32 word"
  iterations :: nat
  guard :: guard
  scope :: scope
  target :: "worker \<Rightarrow> var"
  mutex_of :: "worker \<Rightarrow> mutex"
  counter_align :: nat

text \<open>
  The controller's locations inside the benchmark function: the head of
  \<^verbatim>\<open>for (auto _ : state)\<close>; the declarations at the start of the loop body; the construction
  of \<open>a\<close> and of \<open>b\<close>; the increment and the polling loop of its \<^verbatim>\<open>arriveAndWait()\<close>;
  \<^verbatim>\<open>auto start = now()\<close>; \<^verbatim>\<open>a.join()\<close>; \<^verbatim>\<open>b.join()\<close>; \<^verbatim>\<open>auto end = now()\<close>;
  \<^verbatim>\<open>state.SetIterationTime(...)\<close>; and the return from the function.
\<close>

datatype cpc =
  LoopHead | TrialLocals | SpawnA | SpawnB | CArrive | CPoll | TakeStart
  | JoinA | JoinB | TakeEnd | Report | Exited

text \<open>
  A worker's locations: not started (or destroyed at the end of the loop body); the
  increment and the polling loop of its \<^verbatim>\<open>arriveAndWait()\<close>; the declarations before its
  loop, with \<^verbatim>\<open>auto i = 0\<close>; the test \<^verbatim>\<open>i < k\<close>; the lock, load, store and unlock of a
  guarded or plain \<open>++\<close>; the atomic \<open>++\<close>; and the end of the lambda.
\<close>

datatype wpc =
  Unspawned | WArrive | WPoll | WLocals | LoopTest | Lock | Load | Store | Unlock
  | FetchAdd | Finished

text \<open>
  \<open>iters_left\<close> is the number of iterations the framework's \<^verbatim>\<open>state\<close> still grants;
  \<open>clock\<close> the reading of the clock in ticks and \<open>ticks_per_second\<close> its resolution, which
  the platform fixes; \<open>samples\<close> the arguments of the calls of \<^verbatim>\<open>SetIterationTime\<close> so far;
  \<open>idx\<close> a worker's loop variable \<open>i\<close>; \<open>reg\<close> the value a plain \<open>++\<close> has loaded and not
  yet stored back; \<open>owner\<close> the thread holding a mutex.
\<close>

record state =
  iters_left :: nat
  clock :: int
  ticks_per_second :: nat
  barrier :: Barrier
  cpc :: cpc
  t_start :: int
  t_end :: int
  samples :: "real list"
  wpc :: "worker \<Rightarrow> wpc"
  idx :: "worker \<Rightarrow> nat"
  reg :: "worker \<Rightarrow> 32 word"
  mem :: "var \<Rightarrow> 32 word"
  owner :: "mutex \<Rightarrow> worker option"

text \<open>
  \<^verbatim>\<open>duration_cast<duration<double>>(end - start).count()\<close>: a number of ticks as seconds.
  The rounding of \<^verbatim>\<open>double\<close> is not modelled.
\<close>

definition elapsed_seconds :: "nat \<Rightarrow> int \<Rightarrow> real" where
  "elapsed_seconds hz d = real_of_int d / real hz"

text \<open>
  One action of the controller. A blocked action (polling a closed barrier, joining a
  worker that has not finished) leaves the state as it is. At the end of the loop body the
  thread objects \<open>a\<close> and \<open>b\<close> go out of scope.
\<close>

definition controller_step :: "scenario \<Rightarrow> state \<Rightarrow> state" where
  "controller_step sc s =
     (case cpc s of
        LoopHead \<Rightarrow>
          (if iters_left s = 0 then s\<lparr>cpc := Exited\<rparr>
           else s\<lparr>iters_left := iters_left s - 1, cpc := TrialLocals\<rparr>)
      | TrialLocals \<Rightarrow>
          s\<lparr>mem := (if scope sc = TrialScope
                     then (mem s)(target sc ThreadA := 0, target sc ThreadB := 0)
                     else mem s),
            barrier := new_Barrier (barrier_size sc),
            cpc := SpawnA\<rparr>
      | SpawnA \<Rightarrow> s\<lparr>wpc := (wpc s)(ThreadA := WArrive), cpc := SpawnB\<rparr>
      | SpawnB \<Rightarrow> s\<lparr>wpc := (wpc s)(ThreadB := WArrive), cpc := CArrive\<rparr>
      | CArrive \<Rightarrow> s\<lparr>barrier := arrive (barrier s), cpc := CPoll\<rparr>
      | CPoll \<Rightarrow> (if must_wait (barrier s) then s else s\<lparr>cpc := TakeStart\<rparr>)
      | TakeStart \<Rightarrow> s\<lparr>t_start := clock s, cpc := JoinA\<rparr>
      | JoinA \<Rightarrow> (if wpc s ThreadA = Finished then s\<lparr>cpc := JoinB\<rparr> else s)
      | JoinB \<Rightarrow> (if wpc s ThreadB = Finished then s\<lparr>cpc := TakeEnd\<rparr> else s)
      | TakeEnd \<Rightarrow> s\<lparr>t_end := clock s, cpc := Report\<rparr>
      | Report \<Rightarrow>
          s\<lparr>samples := samples s @ [elapsed_seconds (ticks_per_second s) (t_end s - t_start s)],
            wpc := (\<lambda>w. Unspawned),
            cpc := LoopHead\<rparr>
      | Exited \<Rightarrow> s)"

text \<open>
  One action of worker \<open>w\<close>. A \<^verbatim>\<open>lock_guard\<close> on a mutex held by the other worker blocks.
  The step \<open>++i\<close> of the loop is taken together with the last action of the body.
\<close>

definition worker_step :: "scenario \<Rightarrow> worker \<Rightarrow> state \<Rightarrow> state" where
  "worker_step sc w s =
     (case wpc s w of
        Unspawned \<Rightarrow> s
      | WArrive \<Rightarrow> s\<lparr>barrier := arrive (barrier s), wpc := (wpc s)(w := WPoll)\<rparr>
      | WPoll \<Rightarrow> (if must_wait (barrier s) then s else s\<lparr>wpc := (wpc s)(w := WLocals)\<rparr>)
      | WLocals \<Rightarrow>
          s\<lparr>mem := (if scope sc = WorkerScope then (mem s)(target sc w := 0) else mem s),
            owner := (if scope sc = WorkerScope then (owner s)(mutex_of sc w := None)
                      else owner s),
            idx := (idx s)(w := 0),
            wpc := (wpc s)(w := LoopTest)\<rparr>
      | LoopTest \<Rightarrow>
          (if idx s w < iterations sc
           then s\<lparr>wpc := (wpc s)(w := (case guard sc of
                    Unguarded \<Rightarrow> Load | LockGuard \<Rightarrow> Lock | AtomicRMW \<Rightarrow> FetchAdd))\<rparr>
           else s\<lparr>wpc := (wpc s)(w := Finished)\<rparr>)
      | Lock \<Rightarrow>
          (if owner s (mutex_of sc w) = None
           then s\<lparr>owner := (owner s)(mutex_of sc w := Some w), wpc := (wpc s)(w := Load)\<rparr>
           else s)
      | Load \<Rightarrow> s\<lparr>reg := (reg s)(w := mem s (target sc w)), wpc := (wpc s)(w := Store)\<rparr>
      | Store \<Rightarrow>
          (if guard sc = LockGuard
           then s\<lparr>mem := (mem s)(target sc w := reg s w + 1), wpc := (wpc s)(w := Unlock)\<rparr>
           else s\<lparr>mem := (mem s)(target sc w := reg s w + 1),
                  idx := (idx s)(w := idx s w + 1),
                  wpc := (wpc s)(w := LoopTest)\<rparr>)
      | Unlock \<Rightarrow>
          s\<lparr>owner := (owner s)(mutex_of sc w := None),
            idx := (idx s)(w := idx s w + 1),
            wpc := (wpc s)(w := LoopTest)\<rparr>
      | FetchAdd \<Rightarrow>
          s\<lparr>mem := (mem s)(target sc w := mem s (target sc w) + 1),
            idx := (idx s)(w := idx s w + 1),
            wpc := (wpc s)(w := LoopTest)\<rparr>
      | Finished \<Rightarrow> s)"

text \<open>One event: a tick of the clock, or one action of one thread.\<close>

definition step :: "scenario \<Rightarrow> event \<Rightarrow> state \<Rightarrow> state" where
  "step sc e s =
     (case e of
        Tick \<Rightarrow> s\<lparr>clock := clock s + 1\<rparr>
      | Act Controller \<Rightarrow> controller_step sc s
      | Act (Worker w) \<Rightarrow> worker_step sc w s)"

fun run :: "scenario \<Rightarrow> event list \<Rightarrow> state \<Rightarrow> state" where
  "run sc [] s = s"
| "run sc (e # es) s = run sc es (step sc e s)"

text \<open>
  The state on entry to a benchmark function that the framework runs for \<open>n\<close> iterations,
  the clock reading \<open>t0\<close>: counters and mutex declared before the loop are initialised. No
  barrier exists yet; the field holds a placeholder until the first trial constructs one.
\<close>

definition benchmark_init :: "nat \<Rightarrow> int \<Rightarrow> nat \<Rightarrow> state" where
  "benchmark_init n t0 hz =
     \<lparr>iters_left = n, clock = t0, ticks_per_second = hz, barrier = new_Barrier 0,
      cpc = LoopHead, t_start = 0, t_end = 0, samples = [],
      wpc = (\<lambda>w. Unspawned), idx = (\<lambda>w. 0), reg = (\<lambda>w. 0),
      mem = (\<lambda>x. 0), owner = (\<lambda>m. None)\<rparr>"

text \<open>
  \<^verbatim>\<open>const auto kNumIterationsFalseSharing = 1000000;\<close> and
  \<^verbatim>\<open>const auto kNumIterationsMutex = 1000000;\<close>. Both are of type \<^verbatim>\<open>int\<close>, as is the loop
  variable \<open>i\<close>, which counts from 0 up to the constant and so never overflows; the model
  counts in natural numbers.
\<close>

definition kNumIterationsFalseSharing :: nat where
  "kNumIterationsFalseSharing = 1000000"

definition kNumIterationsMutex :: nat where
  "kNumIterationsMutex = 1000000"

text \<open>
  \<^verbatim>\<open>BM_falseSharing\<close>: \<^verbatim>\<open>struct Counter { std::uint32_t val{0}; } counterA, counterB;\<close> before
  the loop, \<^verbatim>\<open>Barrier barrier(3)\<close>, worker \<open>a\<close> runs \<^verbatim>\<open>++counterA.val\<close> and worker \<open>b\<close> runs
  \<^verbatim>\<open>++counterB.val\<close>, \<^verbatim>\<open>kNumIterationsFalseSharing\<close> times each.
\<close>

definition BM_falseSharing :: scenario where
  "BM_falseSharing =
     \<lparr>barrier_size = 3, iterations = kNumIterationsFalseSharing, guard = Unguarded,
      scope = BenchmarkScope,
      target = (\<lambda>w. case w of ThreadA \<Rightarrow> CounterA | ThreadB \<Rightarrow> CounterB),
      mutex_of = (\<lambda>w. Mtx), counter_align = 4\<rparr>"

text \<open>\<^verbatim>\<open>BM_noFalseSharing\<close>: the same with \<^verbatim>\<open>struct alignas(128) Counter\<close>.\<close>

definition BM_noFalseSharing :: scenario where
  "BM_noFalseSharing =
     \<lparr>barrier_size = 3, iterations = kNumIterationsFalseSharing, guard = Unguarded,
      scope = BenchmarkScope,
      target = (\<lambda>w. case w of ThreadA \<Rightarrow> CounterA | ThreadB \<Rightarrow> CounterB),
      mutex_of = (\<lambda>w. Mtx), counter_align = 128\<rparr>"

text \<open>
  \<^verbatim>\<open>BM_useMutex\<close>: \<^verbatim>\<open>std::mutex mtx; std::uint32_t counter{0};\<close> before the loop,
  \<^verbatim>\<open>Barrier barrier(3)\<close>, both workers run \<^verbatim>\<open>std::lock_guard lk(mtx); ++counter\<close>.
\<close>

definition BM_useMutex :: scenario where
  "BM_useMutex =
     \<lparr>barrier_size = 3, iterations = kNumIterationsMutex, guard = LockGuard,
      scope = BenchmarkScope, target = (\<lambda>w. Counter), mutex_of = (\<lambda>w. Mtx),
      counter_align = 4\<rparr>"

text \<open>
  \<^verbatim>\<open>BM_useMutexNoContention\<close>: \<^verbatim>\<open>Barrier barrier(2)\<close>; each worker declares its own
  \<^verbatim>\<open>mtx\<close> and \<^verbatim>\<open>counter{0}\<close> after \<^verbatim>\<open>arriveAndWait()\<close> and increments under its own lock.
\<close>

definition BM_useMutexNoContention :: scenario where
  "BM_useMutexNoContention =
     \<lparr>barrier_size = 2, iterations = kNumIterationsMutex, guard = LockGuard,
      scope = WorkerScope, target = Local, mutex_of = LocalMtx, counter_align = 4\<rparr>"

text \<open>
  \<^verbatim>\<open>BM_useAtomic\<close>: \<^verbatim>\<open>std::atomic_int32_t counter{0}; Barrier barrier(2);\<close> at the start of
  the loop body; both workers run the atomic \<^verbatim>\<open>++counter\<close>.
\<close>

definition BM_useAtomic :: scenario where
  "BM_useAtomic =
     \<lparr>barrier_size = 2, iterations = kNumIterationsMutex, guard = AtomicRMW,
      scope = TrialScope, target = (\<lambda>w. Counter), mutex_of = (\<lambda>w. Mtx),
      counter_align = 4\<rparr>"

text \<open>
  Classes of locations. For the controller: the barrier of the current trial exists; worker
  \<open>w\<close> has been constructed; worker \<open>w\<close> has been joined; the controller has incremented the
  barrier; it has left the barrier. For a worker: it has incremented the barrier; it has
  left the barrier; it has made its declarations; it is inside the loop body; it is between
  lock and unlock.
\<close>

fun has_barrier :: "cpc \<Rightarrow> bool" where
  "has_barrier LoopHead = False"
| "has_barrier TrialLocals = False"
| "has_barrier Exited = False"
| "has_barrier c = True"

fun spawned :: "worker \<Rightarrow> cpc \<Rightarrow> bool" where
  "spawned w LoopHead = False"
| "spawned w TrialLocals = False"
| "spawned w SpawnA = False"
| "spawned w Exited = False"
| "spawned ThreadB SpawnB = False"
| "spawned w c = True"

fun joined :: "worker \<Rightarrow> cpc \<Rightarrow> bool" where
  "joined ThreadA JoinB = True"
| "joined w TakeEnd = True"
| "joined w Report = True"
| "joined w c = False"

fun c_arrived :: "cpc \<Rightarrow> bool" where
  "c_arrived CPoll = True"
| "c_arrived TakeStart = True"
| "c_arrived JoinA = True"
| "c_arrived JoinB = True"
| "c_arrived TakeEnd = True"
| "c_arrived Report = True"
| "c_arrived c = False"

fun c_passed :: "cpc \<Rightarrow> bool" where
  "c_passed TakeStart = True"
| "c_passed JoinA = True"
| "c_passed JoinB = True"
| "c_passed TakeEnd = True"
| "c_passed Report = True"
| "c_passed c = False"

fun w_arrived :: "wpc \<Rightarrow> bool" where
  "w_arrived Unspawned = False"
| "w_arrived WArrive = False"
| "w_arrived p = True"

fun w_passed :: "wpc \<Rightarrow> bool" where
  "w_passed Unspawned = False"
| "w_passed WArrive = False"
| "w_passed WPoll = False"
| "w_passed p = True"

fun has_locals :: "wpc \<Rightarrow> bool" where
  "has_locals Unspawned = False"
| "has_locals WArrive = False"
| "has_locals WPoll = False"
| "has_locals WLocals = False"
| "has_locals p = True"

fun in_body :: "wpc \<Rightarrow> bool" where
  "in_body Lock = True"
| "in_body Load = True"
| "in_body Store = True"
| "in_body Unlock = True"
| "in_body FetchAdd = True"
| "in_body p = False"

fun in_cs :: "wpc \<Rightarrow> bool" where
  "in_cs Load = True"
| "in_cs Store = True"
| "in_cs Unlock = True"
| "in_cs p = False"

text \<open>Increments of its counter that a worker at location \<open>p\<close> with loop index \<open>i\<close> has completed.\<close>

fun completed :: "wpc \<Rightarrow> nat \<Rightarrow> nat" where
  "completed Unspawned i = 0"
| "completed WArrive i = 0"
| "completed WPoll i = 0"
| "completed WLocals i = 0"
| "completed Unlock i = Suc i"
| "completed p i = i"

text \<open>The number of threads of the current trial that have incremented the barrier.\<close>

definition arrivals :: "state \<Rightarrow> nat" where
  "arrivals s = of_bool (c_arrived (cpc s)) + of_bool (w_arrived (wpc s ThreadA))
     + of_bool (w_arrived (wpc s ThreadB))"

definition anyone_passed :: "state \<Rightarrow> bool" where
  "anyone_passed s \<longleftrightarrow>
     c_passed (cpc s) \<or> w_passed (wpc s ThreadA) \<or> w_passed (wpc s ThreadB)"

text \<open>
  Invariants of every execution: the workers exist exactly between their construction and
  the end of the loop body, and have finished once joined; a worker's location fits the
  scenario's guard and its loop variable is in range; the barrier's counter is the number
  of arrivals and nobody has left the barrier before that number reached its size.
\<close>

definition life :: "state \<Rightarrow> bool" where
  "life s \<longleftrightarrow>
     (wpc s ThreadA \<noteq> Unspawned) = spawned ThreadA (cpc s) \<and>
     (wpc s ThreadB \<noteq> Unspawned) = spawned ThreadB (cpc s) \<and>
     (joined ThreadA (cpc s) \<longrightarrow> wpc s ThreadA = Finished) \<and>
     (joined ThreadB (cpc s) \<longrightarrow> wpc s ThreadB = Finished)"

definition shape :: "scenario \<Rightarrow> state \<Rightarrow> worker \<Rightarrow> bool" where
  "shape sc s w \<longleftrightarrow>
     (wpc s w = Lock \<or> wpc s w = Unlock \<longrightarrow> guard sc = LockGuard) \<and>
     (wpc s w = FetchAdd \<longrightarrow> guard sc = AtomicRMW) \<and>
     (wpc s w = Load \<or> wpc s w = Store \<longrightarrow> guard sc \<noteq> AtomicRMW) \<and>
     (in_body (wpc s w) \<longrightarrow> idx s w < iterations sc) \<and>
     (wpc s w = LoopTest \<longrightarrow> idx s w \<le> iterations sc) \<and>
     (wpc s w = Finished \<longrightarrow> idx s w = iterations sc)"

definition bar :: "scenario \<Rightarrow> state \<Rightarrow> bool" where
  "bar sc s \<longleftrightarrow>
     (has_barrier (cpc s) \<longrightarrow>
        numTotalThreads (barrier s) = barrier_size sc \<and>
        sint (numThreadsArrived (barrier s)) = int (arrivals s) \<and>
        (anyone_passed s \<longrightarrow> sint (barrier_size sc) \<le> int (arrivals s)))"

text \<open>Short names for the events of a schedule.\<close>

abbreviation (input) Ctl :: event where "Ctl \<equiv> Act Controller"

abbreviation (input) WA :: event where "WA \<equiv> Act (Worker ThreadA)"

abbreviation (input) WB :: event where "WB \<equiv> Act (Worker ThreadB)"

subsection \<open>Invariants\<close>

definition sound :: "scenario \<Rightarrow> state \<Rightarrow> bool" where
  "sound sc s \<longleftrightarrow> life s \<and> shape sc s ThreadA \<and> shape sc s ThreadB \<and> bar sc s"

text \<open>
  What a counter declared before the loop over trials has accumulated, per worker, in the
  trials reported so far; a counter declared later starts each trial at zero.
\<close>

definition base :: "scenario \<Rightarrow> state \<Rightarrow> nat" where
  "base sc s = (if scope sc = BenchmarkScope then length (samples s) * iterations sc else 0)"

text \<open>The counter that worker \<open>w\<close> increments is in scope and has been initialised.\<close>

definition declared :: "scenario \<Rightarrow> state \<Rightarrow> worker \<Rightarrow> bool" where
  "declared sc s w =
     (case scope sc of
        BenchmarkScope \<Rightarrow> True
      | TrialScope \<Rightarrow> has_barrier (cpc s)
      | WorkerScope \<Rightarrow> has_locals (wpc s w))"

text \<open>
  A counter written by worker \<open>w\<close> alone: the value a plain \<open>++\<close> has loaded is still the
  value in memory, and the counter holds what it had at the start of the trial plus the
  increments \<open>w\<close> has completed.
\<close>

definition own_counter :: "scenario \<Rightarrow> state \<Rightarrow> worker \<Rightarrow> bool" where
  "own_counter sc s w \<longleftrightarrow>
     (wpc s w = Store \<longrightarrow> reg s w = mem s (target sc w)) \<and>
     (declared sc s w \<longrightarrow>
        mem s (target sc w) = of_nat (base sc s + completed (wpc s w) (idx s w)))"

definition private_counters :: "scenario \<Rightarrow> state \<Rightarrow> bool" where
  "private_counters sc s \<longleftrightarrow>
     sound sc s \<and> own_counter sc s ThreadA \<and> own_counter sc s ThreadB"

text \<open>
  One counter incremented by both workers: a worker is between its lock and its unlock
  exactly when it owns the mutex, the value a guarded \<open>++\<close> has loaded is still the value in
  memory, and the counter holds what it had at the start of the trial plus the increments
  both workers have completed.
\<close>

definition shared_counter :: "scenario \<Rightarrow> state \<Rightarrow> bool" where
  "shared_counter sc s \<longleftrightarrow>
     in_cs (wpc s ThreadA) = (owner s (mutex_of sc ThreadA) = Some ThreadA) \<and>
     in_cs (wpc s ThreadB) = (owner s (mutex_of sc ThreadA) = Some ThreadB) \<and>
     (wpc s ThreadA = Store \<longrightarrow> reg s ThreadA = mem s (target sc ThreadA)) \<and>
     (wpc s ThreadB = Store \<longrightarrow> reg s ThreadB = mem s (target sc ThreadA)) \<and>
     (declared sc s ThreadA \<longrightarrow>
        mem s (target sc ThreadA) =
          of_nat (2 * base sc s + completed (wpc s ThreadA) (idx s ThreadA)
                  + completed (wpc s ThreadB) (idx s ThreadB)))"

text \<open>
  Scenarios in which both workers increment the same counter, atomically or under the
  same mutex, declared outside the workers.
\<close>

definition shares :: "scenario \<Rightarrow> bool" where
  "shares sc \<longleftrightarrow>
     target sc ThreadB = target sc ThreadA \<and> mutex_of sc ThreadB = mutex_of sc ThreadA \<and>
     guard sc \<noteq> Unguarded \<and> scope sc \<noteq> WorkerScope"

definition shared_inv :: "scenario \<Rightarrow> state \<Rightarrow> bool" where
  "shared_inv sc s \<longleftrightarrow> sound sc s \<and> shared_counter sc s"

text \<open>The controller has read the start time of the current trial.\<close>

fun has_start :: "cpc \<Rightarrow> bool" where
  "has_start JoinA = True"
| "has_start JoinB = True"
| "has_start TakeEnd = True"
| "has_start Report = True"
| "has_start c = False"

fun between_trials :: "cpc \<Rightarrow> bool" where
  "between_trials LoopHead = True"
| "between_trials Exited = True"
| "between_trials c = False"

text \<open>
  The clock's resolution never changes, and the samples reported, the iterations still
  granted and the trial in progress add up to the \<open>n\<close> iterations granted at the start.
\<close>

definition timing :: "nat \<Rightarrow> nat \<Rightarrow> state \<Rightarrow> bool" where
  "timing n hz s \<longleftrightarrow>
     ticks_per_second s = hz \<and>
     length (samples s) + iters_left s + of_bool (\<not> between_trials (cpc s)) = n \<and>
     (cpc s = Exited \<longrightarrow> iters_left s = 0)"

subsection \<open>A schedule that completes a trial\<close>

text \<open>
  A schedule that runs a whole trial for any iteration count: the controller sets the trial
  up and arrives, both workers arrive, the controller leaves the barrier and reads the
  start time, worker \<open>a\<close> runs alone to the end of its lambda, then worker \<open>b\<close>, and the
  controller joins both. An \<open>iteration\<close> is the loop test followed by the actions of the
  body; \<open>solo\<close> is a worker leaving the barrier, its declarations, all its iterations and
  the final test; \<open>one_trial\<close> adds the reading of the end time and the report.
\<close>

fun body_len :: "guard \<Rightarrow> nat" where
  "body_len Unguarded = Suc (Suc 0)"
| "body_len LockGuard = Suc (Suc (Suc (Suc 0)))"
| "body_len AtomicRMW = Suc 0"

definition iteration :: "scenario \<Rightarrow> worker \<Rightarrow> event list" where
  "iteration sc w = replicate (Suc (body_len (guard sc))) (Act (Worker w))"

definition solo :: "scenario \<Rightarrow> worker \<Rightarrow> event list" where
  "solo sc w =
     [Act (Worker w), Act (Worker w)] @ concat (replicate (iterations sc) (iteration sc w))
     @ [Act (Worker w)]"

definition to_join :: "scenario \<Rightarrow> event list" where
  "to_join sc =
     [Ctl, Ctl, Ctl, Ctl, Ctl, WA, WB, Ctl, Ctl] @ solo sc ThreadA @ solo sc ThreadB @ [Ctl, Ctl]"

definition one_trial :: "scenario \<Rightarrow> event list" where
  "one_trial sc = to_join sc @ [Ctl, Ctl]"

text \<open>What the actions of worker \<open>w\<close> alone leave as it was.\<close>

definition undisturbed :: "worker \<Rightarrow> state \<Rightarrow> state \<Rightarrow> bool" where
  "undisturbed w s s' \<longleftrightarrow>
     cpc s' = cpc s \<and> iters_left s' = iters_left s \<and> clock s' = clock s \<and>
     ticks_per_second s' = ticks_per_second s \<and> barrier s' = barrier s \<and>
     t_start s' = t_start s \<and> t_end s' = t_end s \<and> samples s' = samples s \<and>
     (\<forall>v. v \<noteq> w \<longrightarrow> wpc s' v = wpc s v)"

definition idle :: "state \<Rightarrow> bool" where
  "idle s \<longleftrightarrow> cpc s = LoopHead \<and> (\<forall>w. wpc s w = Unspawned) \<and> (\<forall>m. owner s m = None)"

subsection \<open>Schedules of concrete executions\<close>

text \<open>
  Pieces of schedules for a trial with one iteration per worker. \<open>sched_start\<close>: the
  controller enters the loop body, constructs barrier and threads and arrives, both workers
  arrive, the clock ticks, the controller leaves the barrier and reads the start time.
  \<open>locked_work\<close>, \<open>plain_work\<close>, \<open>atomic_work\<close>: the two workers leave the barrier and run
  their loops interleaved, to the end, for a lock-guarded, a plain and an atomic increment
  (in \<open>locked_work\<close> worker \<open>b\<close> tries the lock twice while \<open>a\<close> holds it). \<open>sched_join\<close>:
  the controller joins both. \<open>sched_report\<close>: it reads the end time and reports.
\<close>

definition sched_start :: "event list" where
  "sched_start = [Ctl, Ctl, Ctl, Ctl, Ctl, WA, WB, Tick, Ctl, Ctl]"

definition locked_work :: "event list" where
  "locked_work = [WA, WA, WA, WA, WA, WB, WB, WB, WB, WB, WA, WA, Tick, WB, WB, WB, WA, WB, WB]"

definition plain_work :: "event list" where
  "plain_work = [WA, WB, WA, WB, WA, WB, WA, WB, WA, Tick, WB, WA, WB]"

definition atomic_work :: "event list" where
  "atomic_work = [WA, WB, WA, WB, WA, WB, WA, WB, Tick, Tick, WA, WB]"

definition sched_join :: "event list" where
  "sched_join = [Ctl, Ctl]"

definition sched_report :: "event list" where
  "sched_report = [Tick, Ctl, Ctl]"

subsection \<open>Memory layout of the counters\<close>

text \<open>
  \<^verbatim>\<open>sizeof(Counter)\<close> for a struct holding one 32-bit member and aligned to \<open>al\<close> bytes:
  the four bytes of the member rounded up to a multiple of the alignment.
\<close>

definition sizeof_Counter :: "nat \<Rightarrow> nat" where
  "sizeof_Counter al = ((4 + al - 1) div al) * al"

text \<open>
  Addresses \<open>a\<close> and \<open>b\<close> can hold the two objects \<^verbatim>\<open>counterA\<close> and \<^verbatim>\<open>counterB\<close> of a
  scenario: each address is a multiple of the alignment and the objects do not overlap.
\<close>

definition placed :: "scenario \<Rightarrow> nat \<Rightarrow> nat \<Rightarrow> bool" where
  "placed sc a b \<longleftrightarrow>
     counter_align sc dvd a \<and> counter_align sc dvd b \<and>
     (a + sizeof_Counter (counter_align sc) \<le> b \<or> b + sizeof_Counter (counter_align sc) \<le> a)"

text \<open>The cache line of a byte address, for lines of \<open>L\<close> bytes.\<close>

definition cache_line :: "nat \<Rightarrow> nat \<Rightarrow> nat" where
  "cache_line L addr = addr div L"

text \<open>
  The controller constructs barrier and threads; worker \<open>a\<close> arrives, the controller
  arrives, polls once and, a tick later, reads the start time. Worker \<open>b\<close> does not act.
\<close>

definition early_start :: "event list" where
  "early_start = [Ctl, Ctl, Ctl, Ctl, WA, Ctl, Ctl, Tick, Ctl]"

subsection \<open>A trial with a late worker\<close>

text \<open>
  A trial in which worker \<open>b\<close> is slow to start: after the controller has read the start
  time (\<open>early_start\<close>) the clock ticks a hundred times before \<open>b\<close> executes the increment
  of its \<^verbatim>\<open>arriveAndWait()\<close>; then worker \<open>a\<close> and worker \<open>b\<close> run to the end of their
  lambdas, and the controller joins both, reads the end time and reports.
\<close>

definition late_worker :: "scenario \<Rightarrow> event list" where
  "late_worker sc =
     early_start @ replicate 100 Tick @ [WB] @ solo sc ThreadA @ solo sc ThreadB
     @ [Ctl, Ctl, Ctl, Ctl]"

section \<open>Invariants and the properties of the specification\<close>

subsection \<open>The barrier on its own\<close>

lemma sint_of_nat_small: "k < 2 ^ 31 \<Longrightarrow> sint (of_nat k :: 32 word) = int k"
proof -
  assume k: "k < 2 ^ 31"
  have "int k < 2 ^ 31"
    using k by (metis of_nat_less_iff of_nat_numeral of_nat_power)
  then have "signed_take_bit 31 (int k) = int k"
    by (intro signed_take_bit_int_eq_self) auto
  then show ?thesis by (simp add: signed_of_nat)
qed

lemma sint_bound32: "sint (n :: 32 word) < 2 ^ 31"
  using sint_lt [of n] by simp

lemma length_filter_update_new:
  "i < length xs \<Longrightarrow> \<not> P (xs ! i) \<Longrightarrow> P y \<Longrightarrow>
   length (filter P (xs[i := y])) = Suc (length (filter P xs))"
proof (induction xs arbitrary: i)
  case Nil
  then show ?case by simp
next
  case (Cons x xs)
  then show ?case by (cases i) auto
qed

lemma length_filter_update_same:
  "i < length xs \<Longrightarrow> P (xs ! i) = P y \<Longrightarrow>
   length (filter P (xs[i := y])) = length (filter P xs)"
proof (induction xs arbitrary: i)
  case Nil
  then show ?case by simp
next
  case (Cons x xs)
  then show ?case by (cases i) auto
qed

lemma run_calls_append: "run_calls (xs @ ys) r = run_calls ys (run_calls xs r)"
  by (induction xs arbitrary: r) auto

lemma step_length [simp]: "length (calls (arriveAndWait_step i r)) = length (calls r)"
  by (simp add: arriveAndWait_step_def split: call.splits)

lemma step_total [simp]:
  "numTotalThreads (shared (arriveAndWait_step i r)) = numTotalThreads (shared r)"
  by (simp add: arriveAndWait_step_def arrive_def split: call.splits)

lemma run_length [simp]: "length (calls (run_calls sched r)) = length (calls r)"
  by (induction sched arbitrary: r) auto

lemma run_total [simp]:
  "numTotalThreads (shared (run_calls sched r)) = numTotalThreads (shared r)"
  by (induction sched arbitrary: r) auto

lemma step_called_mono: "called r \<le> called (arriveAndWait_step i r)"
  by (auto simp: arriveAndWait_step_def called_def length_filter_update_new
      length_filter_update_same split: call.splits)

lemma step_counter:
  "numThreadsArrived (shared r) = of_nat (called r) \<Longrightarrow>
   numThreadsArrived (shared (arriveAndWait_step i r)) = of_nat (called (arriveAndWait_step i r))"
  by (auto simp: arriveAndWait_step_def called_def arrive_def length_filter_update_new
      length_filter_update_same split: call.splits)

lemma run_counter:
  "numThreadsArrived (shared r) = of_nat (called r) \<Longrightarrow>
   numThreadsArrived (shared (run_calls sched r)) = of_nat (called (run_calls sched r))"
  by (induction sched arbitrary: r) (auto simp: step_counter)

lemma init_counter: "numThreadsArrived (shared (rendezvous_init n m)) = of_nat (called (rendezvous_init n m))"
  by (simp add: rendezvous_init_def new_Barrier_def called_def)

lemma step_returned:
  assumes cnt: "numThreadsArrived (shared r) = of_nat (called r)"
    and small: "called (arriveAndWait_step i r) < 2 ^ 31"
    and old: "Returned \<in> set (calls r) \<Longrightarrow> sint (numTotalThreads (shared r)) \<le> int (called r)"
    and new: "Returned \<in> set (calls (arriveAndWait_step i r))"
  shows "sint (numTotalThreads (shared r)) \<le> int (called (arriveAndWait_step i r))"
proof (cases "Returned \<in> set (calls r)")
  case True
  then show ?thesis using old step_called_mono [of r i] by linarith
next
  case False
  have lt: "called r < 2 ^ 31" using small step_called_mono [of r i] by linarith
  from False new have i: "i < length (calls r)" "calls r ! i = Polling" "\<not> must_wait (shared r)"
    by (auto simp: arriveAndWait_step_def split: call.splits if_splits dest: set_update_subset_insert [THEN subsetD])
  then have "sint (numTotalThreads (shared r)) \<le> int (called r)"
    using cnt lt by (simp add: must_wait_def sint_of_nat_small)
  then show ?thesis using step_called_mono [of r i] by linarith
qed

lemma run_called_mono: "called r \<le> called (run_calls sched r)"
proof (induction sched arbitrary: r)
  case Nil
  then show ?case by simp
next
  case (Cons i sched)
  then show ?case using step_called_mono [of r i] le_trans by fastforce
qed

lemma run_returned:
  assumes "numThreadsArrived (shared r) = of_nat (called r)"
    and "called (run_calls sched r) < 2 ^ 31"
    and "Returned \<in> set (calls r) \<Longrightarrow> sint (numTotalThreads (shared r)) \<le> int (called r)"
    and "Returned \<in> set (calls (run_calls sched r))"
  shows "sint (numTotalThreads (shared r)) \<le> int (called (run_calls sched r))"
  using assms
proof (induction sched arbitrary: r)
  case Nil
  then show ?case by simp
next
  case (Cons i sched)
  let ?r = "arriveAndWait_step i r"
  have small: "called ?r < 2 ^ 31"
    using Cons.prems(2) run_called_mono [of ?r sched] by simp
  have "sint (numTotalThreads (shared ?r)) \<le> int (called (run_calls sched ?r))"
  proof (rule Cons.IH)
    show "numThreadsArrived (shared ?r) = of_nat (called ?r)"
      by (rule step_counter [OF Cons.prems(1)])
    show "called (run_calls sched ?r) < 2 ^ 31" using Cons.prems(2) by simp
    show "sint (numTotalThreads (shared ?r)) \<le> int (called ?r)" if "Returned \<in> set (calls ?r)"
      using step_returned [OF Cons.prems(1) small Cons.prems(3) that] by simp
    show "Returned \<in> set (calls (run_calls sched ?r))" using Cons.prems(4) by simp
  qed
  then show ?case by simp
qed

lemma called_le_length: "called r \<le> length (calls r)"
  by (simp add: called_def)

lemma called_all: "called r = length (calls r) \<Longrightarrow> NotCalled \<notin> set (calls r)"
  unfolding called_def using length_filter_less [of NotCalled "calls r" "\<lambda>c. c \<noteq> NotCalled"]
  by auto

lemma all_called: "NotCalled \<notin> set (calls r) \<Longrightarrow> called r = length (calls r)"
proof -
  assume "NotCalled \<notin> set (calls r)"
  then have "filter (\<lambda>c. c \<noteq> NotCalled) (calls r) = calls r"
    by (intro filter_True) auto
  then show ?thesis by (simp add: called_def)
qed

lemma init_simps [simp]:
  "length (calls (rendezvous_init n m)) = m"
  "numTotalThreads (shared (rendezvous_init n m)) = n"
  "Returned \<notin> set (calls (rendezvous_init n m))"
  by (simp_all add: rendezvous_init_def new_Barrier_def)

lemma returned_after_enough:
  assumes "called (run_calls sched (rendezvous_init n m)) < 2 ^ 31"
    and "Returned \<in> set (calls (run_calls sched (rendezvous_init n m)))"
  shows "sint n \<le> int (called (run_calls sched (rendezvous_init n m)))"
  using run_returned [OF init_counter assms(1) _ assms(2)] by simp

lemma step_keeps_called:
  "j < length (calls r) \<Longrightarrow> calls r ! j \<noteq> NotCalled \<Longrightarrow> calls (arriveAndWait_step i r) ! j \<noteq> NotCalled"
  by (auto simp: arriveAndWait_step_def nth_list_update split: call.splits)

lemma step_calls:
  "j < length (calls r) \<Longrightarrow> calls (arriveAndWait_step j r) ! j \<noteq> NotCalled"
  by (auto simp: arriveAndWait_step_def split: call.splits)

lemma run_keeps_called:
  "j < length (calls r) \<Longrightarrow> calls r ! j \<noteq> NotCalled \<Longrightarrow> calls (run_calls sched r) ! j \<noteq> NotCalled"
  by (induction sched arbitrary: r) (auto simp: step_keeps_called)

lemma run_calls_scheduled:
  "j < length (calls r) \<Longrightarrow> j \<in> set sched \<Longrightarrow> calls (run_calls sched r) ! j \<noteq> NotCalled"
proof (induction sched arbitrary: r)
  case Nil
  then show ?case by simp
next
  case (Cons i sched)
  show ?case
  proof (cases "i = j")
    case True
    then show ?thesis using Cons.prems(1) by (simp add: run_keeps_called step_calls)
  next
    case False
    then show ?thesis using Cons by simp
  qed
qed

lemma step_unscheduled:
  "i \<noteq> j \<Longrightarrow> calls (arriveAndWait_step i r) ! j = calls r ! j"
  by (auto simp: arriveAndWait_step_def split: call.splits)

lemma run_unscheduled:
  "j \<notin> set sched \<Longrightarrow> calls (run_calls sched r) ! j = calls r ! j"
  by (induction sched arbitrary: r) (auto simp: step_unscheduled)

lemma step_open:
  assumes "NotCalled \<notin> set (calls r)" "\<not> must_wait (shared r)"
  shows "NotCalled \<notin> set (calls (arriveAndWait_step i r))"
    and "shared (arriveAndWait_step i r) = shared r"
    and "i < length (calls r) \<Longrightarrow> calls (arriveAndWait_step i r) ! i = Returned"
    and "j < length (calls r) \<Longrightarrow> calls r ! j = Returned \<Longrightarrow> calls (arriveAndWait_step i r) ! j = Returned"
proof -
  have nc: "calls r ! k \<noteq> NotCalled" if "k < length (calls r)" for k
    using assms(1) that by (metis nth_mem)
  show "NotCalled \<notin> set (calls (arriveAndWait_step i r))"
    using assms nc [of i]
    by (auto simp: arriveAndWait_step_def split: call.splits
        dest: set_update_subset_insert [THEN subsetD])
  show "shared (arriveAndWait_step i r) = shared r"
    using assms nc [of i] by (auto simp: arriveAndWait_step_def split: call.splits)
  show "i < length (calls r) \<Longrightarrow> calls (arriveAndWait_step i r) ! i = Returned"
    using assms nc [of i] by (auto simp: arriveAndWait_step_def split: call.splits)
  show "j < length (calls r) \<Longrightarrow> calls r ! j = Returned \<Longrightarrow>
      calls (arriveAndWait_step i r) ! j = Returned"
    using assms nc [of i]
    by (auto simp: arriveAndWait_step_def nth_list_update split: call.splits)
qed

lemma run_open_keeps:
  "NotCalled \<notin> set (calls r) \<Longrightarrow> \<not> must_wait (shared r) \<Longrightarrow> j < length (calls r) \<Longrightarrow>
   calls r ! j = Returned \<Longrightarrow> calls (run_calls sched r) ! j = Returned"
  by (induction sched arbitrary: r) (auto simp: step_open)

lemma run_open:
  "NotCalled \<notin> set (calls r) \<Longrightarrow> \<not> must_wait (shared r) \<Longrightarrow> j < length (calls r) \<Longrightarrow>
   j \<in> set sched \<Longrightarrow> calls (run_calls sched r) ! j = Returned"
proof (induction sched arbitrary: r)
  case Nil
  then show ?case by simp
next
  case (Cons i sched)
  show ?case
  proof (cases "i = j")
    case True
    then show ?thesis using Cons.prems by (simp add: run_open_keeps step_open)
  next
    case False
    then show ?thesis using Cons by (simp add: step_open)
  qed
qed

lemma run_all_returned: "calls r = replicate m Returned \<Longrightarrow> run_calls zs r = r"
proof (induction zs)
  case Nil
  then show ?case by simp
next
  case (Cons i zs)
  then have "arriveAndWait_step i r = r"
    by (simp add: arriveAndWait_step_def)
  then show ?case using Cons by simp
qed

text \<open>
  Claim C3. Let a barrier be constructed with \<open>requiredParticipants = N \<ge> 1\<close> and let exactly
  \<open>N\<close> threads call \<^verbatim>\<open>arriveAndWait()\<close> once each. Under every interleaving, a call has
  returned only when all \<open>N\<close> threads have called (no thread is still \<open>NotCalled\<close>). And all
  \<open>N\<close> calls return: after any schedule in which every thread acts at least once (the
  increments), followed by any schedule in which every thread acts at least once more (one
  more evaluation of the loop condition), every call has returned, and stays returned
  whatever is scheduled afterwards.
\<close>

theorem barrier_releases_all_together:
  assumes N: "1 \<le> sint n" and m: "m = nat (sint n)"
  shows "(\<forall>sched. Returned \<in> set (calls (run_calls sched (rendezvous_init n m))) \<longrightarrow>
            NotCalled \<notin> set (calls (run_calls sched (rendezvous_init n m)))) \<and>
         (\<forall>xs ys zs. {..<m} \<subseteq> set xs \<and> {..<m} \<subseteq> set ys \<longrightarrow>
            calls (run_calls (xs @ ys @ zs) (rendezvous_init n m)) = replicate m Returned)"
proof (intro conjI allI impI)
  have m31: "m < 2 ^ 31"
    using sint_bound32 [of n] N m by (simp add: nat_less_iff)
  have mn: "int m = sint n" using N m by simp
  {
    fix sched
    let ?r = "run_calls sched (rendezvous_init n m)"
    assume ret: "Returned \<in> set (calls ?r)"
    have le: "called ?r \<le> m" using called_le_length [of ?r] by simp
    then have "called ?r < 2 ^ 31" using m31 by linarith
    from returned_after_enough [OF this ret] have "int m \<le> int (called ?r)" using mn by simp
    with le have "called ?r = length (calls ?r)" by simp
    then show "NotCalled \<notin> set (calls ?r)" by (rule called_all)
  }
  {
    fix xs ys zs
    let ?r = "run_calls xs (rendezvous_init n m)"
    assume sub: "{..<m} \<subseteq> set xs \<and> {..<m} \<subseteq> set ys"
    have "calls ?r ! j \<noteq> NotCalled" if "j < m" for j
      using run_calls_scheduled [of j "rendezvous_init n m" xs] sub that by auto
    then have nc: "NotCalled \<notin> set (calls ?r)"
      by (auto simp: in_set_conv_nth)
    then have "called ?r = m" using all_called [of ?r] by simp
    moreover have "numThreadsArrived (shared ?r) = of_nat (called ?r)"
      by (rule run_counter [OF init_counter])
    ultimately have opened: "\<not> must_wait (shared ?r)"
      using m31 mn by (simp add: must_wait_def sint_of_nat_small)
    have "calls (run_calls ys ?r) ! j = Returned" if "j < m" for j
      using run_open [OF nc opened, of j ys] sub that by auto
    then have "calls (run_calls ys ?r) = replicate m Returned"
      by (simp add: list_eq_iff_nth_eq)
    then have "calls (run_calls zs (run_calls ys ?r)) = replicate m Returned"
      by (simp add: run_all_returned)
    then show "calls (run_calls (xs @ ys @ zs) (rendezvous_init n m)) = replicate m Returned"
      by (simp add: run_calls_append)
  }
qed

theorem barrier_releases_all_together_witness:
  "calls (run_calls ([0, 1, 0, 2, 1] @ [2, 0, 1]) (rendezvous_init 3 3)) = replicate 3 Returned \<and>
   Returned \<notin> set (calls (run_calls [0, 1, 0, 1] (rendezvous_init 3 3))) \<and>
   NotCalled \<notin> set (calls (run_calls [0, 1, 2, 1] (rendezvous_init 3 3))) \<and>
   calls (run_calls [0, 1, 2, 1] (rendezvous_init 3 3)) ! 1 = Returned"
proof -
  have "(1::int) \<le> sint (3 :: 32 word)" "(3::nat) = nat (sint (3 :: 32 word))" by simp_all
  note main = barrier_releases_all_together [OF this]
  have sub: "{..<3::nat} \<subseteq> set [0, 1, 0, 2, 1] \<and> {..<3::nat} \<subseteq> set [2, 0, 1]"
    by (auto simp: lessThan_def less_Suc_eq numeral_3_eq_3)
  have "calls (run_calls ([0, 1, 0, 2, 1] @ [2, 0, 1] @ []) (rendezvous_init 3 3)) =
      replicate 3 Returned"
    using main sub by blast
  then have a: "calls (run_calls ([0, 1, 0, 2, 1] @ [2, 0, 1]) (rendezvous_init 3 3)) =
      replicate 3 Returned"
    by simp
  have b: "calls (run_calls [0, 1, 2, 1] (rendezvous_init 3 3)) ! 1 = Returned"
    by (simp add: rendezvous_init_def new_Barrier_def arriveAndWait_step_def arrive_def
        must_wait_def numeral_3_eq_3)
  then have "Returned \<in> set (calls (run_calls [0, 1, 2, 1] (rendezvous_init 3 3)))"
    by (metis nth_mem run_length init_simps(1) one_less_numeral_iff semiring_norm(77))
  then have c: "NotCalled \<notin> set (calls (run_calls [0, 1, 2, 1] (rendezvous_init 3 3)))"
    using main by blast
  have d: "Returned \<notin> set (calls (run_calls [0, 1, 0, 1] (rendezvous_init 3 3)))"
    by (simp add: rendezvous_init_def new_Barrier_def arriveAndWait_step_def arrive_def
        must_wait_def numeral_3_eq_3)
  show ?thesis using a b c d by simp
qed

lemma called_le_scheduled:
  "called (run_calls sched (rendezvous_init n m)) \<le> card (set sched \<inter> {..<m})"
proof -
  let ?r = "run_calls sched (rendezvous_init n m)"
  have "calls ?r ! i = NotCalled" if "i < m" "i \<notin> set sched" for i
    using run_unscheduled [OF that(2), of "rendezvous_init n m"] that(1)
    by (simp add: rendezvous_init_def)
  then have "{i. i < length (calls ?r) \<and> calls ?r ! i \<noteq> NotCalled} \<subseteq> set sched \<inter> {..<m}"
    by auto
  then have "card {i. i < length (calls ?r) \<and> calls ?r ! i \<noteq> NotCalled} \<le> card (set sched \<inter> {..<m})"
    by (intro card_mono) auto
  then show ?thesis by (simp add: called_def length_filter_conv_card)
qed

lemma poll_again:
  "must_wait (shared r) \<Longrightarrow> calls r ! i = Polling \<Longrightarrow> run_calls (replicate k i) r = r"
  by (induction k) (auto simp: arriveAndWait_step_def)

text \<open>
  Claim C5. If fewer than \<open>requiredParticipants\<close> of the threads ever act on the barrier (the
  schedule names fewer than \<open>N\<close> distinct threads), then no call has returned, the loop
  condition is still true, and a polling thread that evaluates it any number of further
  times changes nothing: it keeps polling. The step function has no other way out of
  \<open>Polling\<close>: there is no timeout and no detection.
\<close>

theorem too_few_callers_never_return:
  assumes few: "int (card (set sched \<inter> {..<m})) < sint n"
  shows "Returned \<notin> set (calls (run_calls sched (rendezvous_init n m))) \<and>
         must_wait (shared (run_calls sched (rendezvous_init n m))) \<and>
         (\<forall>i k. calls (run_calls sched (rendezvous_init n m)) ! i = Polling \<longrightarrow>
            run_calls (replicate k i) (run_calls sched (rendezvous_init n m)) =
            run_calls sched (rendezvous_init n m))"
proof -
  let ?r = "run_calls sched (rendezvous_init n m)"
  have lt: "int (called ?r) < sint n"
    using called_le_scheduled [of sched n m] few by linarith
  then have "int (called ?r) < 2 ^ 31"
    using sint_bound32 [of n] by linarith
  then have small: "called ?r < 2 ^ 31"
    by (metis of_nat_less_iff of_nat_numeral of_nat_power)
  have never: "Returned \<notin> set (calls ?r)"
    using returned_after_enough [OF small] lt by fastforce
  have "numThreadsArrived (shared ?r) = of_nat (called ?r)"
    by (rule run_counter [OF init_counter])
  then have wait: "must_wait (shared ?r)"
    using lt small by (simp add: must_wait_def sint_of_nat_small)
  show ?thesis using never wait poll_again [OF wait] by blast
qed

theorem too_few_callers_never_return_witness:
  "Returned \<notin> set (calls (run_calls [0, 1, 1, 0, 0, 1] (rendezvous_init 3 3))) \<and>
   calls (run_calls [0, 1, 1, 0, 0, 1] (rendezvous_init 3 3)) = [Polling, Polling, NotCalled] \<and>
   run_calls (replicate 7 0) (run_calls [0, 1, 1, 0, 0, 1] (rendezvous_init 3 3)) =
     run_calls [0, 1, 1, 0, 0, 1] (rendezvous_init 3 3)"
proof -
  have "set [0, 1, 1, 0, 0, 1::nat] \<inter> {..<3} = {0, 1}" by auto
  then have "int (card (set [0, 1, 1, 0, 0, 1::nat] \<inter> {..<3})) < sint (3 :: 32 word)" by simp
  note main = too_few_callers_never_return [OF this]
  have c: "calls (run_calls [0, 1, 1, 0, 0, 1] (rendezvous_init 3 3)) = [Polling, Polling, NotCalled]"
    by (simp add: rendezvous_init_def new_Barrier_def arriveAndWait_step_def arrive_def
        must_wait_def numeral_3_eq_3)
  then have "calls (run_calls [0, 1, 1, 0, 0, 1] (rendezvous_init 3 3)) ! 0 = Polling" by simp
  then show ?thesis using main c by blast
qed

text \<open>
  Claim C4. A new barrier has arrival counter zero. A thread's call of \<^verbatim>\<open>arriveAndWait()\<close>
  first adds one to the arrival counter in a single atomic action; from then on each of its
  actions evaluates the loop condition: while the counter is less than
  \<open>requiredParticipants\<close> the action changes nothing and the thread polls again (it is never
  suspended), and once the counter is no longer less the action makes the call return.
  Hence under every interleaving the counter is the number of calls made so far, and a
  call has returned only when that number has reached \<open>requiredParticipants\<close>.
\<close>

theorem arriveAndWait_protocol:
  "numThreadsArrived (new_Barrier n) = 0 \<and> numTotalThreads (new_Barrier n) = n \<and>
   (i < length (calls r) \<and> calls r ! i = NotCalled \<longrightarrow>
      arriveAndWait_step i r =
        \<lparr>shared = (shared r)\<lparr>numThreadsArrived := numThreadsArrived (shared r) + 1\<rparr>,
         calls = (calls r)[i := Polling]\<rparr>) \<and>
   (i < length (calls r) \<and> calls r ! i = Polling \<and>
      sint (numThreadsArrived (shared r)) < sint (numTotalThreads (shared r)) \<longrightarrow>
      arriveAndWait_step i r = r) \<and>
   (i < length (calls r) \<and> calls r ! i = Polling \<and>
      \<not> sint (numThreadsArrived (shared r)) < sint (numTotalThreads (shared r)) \<longrightarrow>
      arriveAndWait_step i r = r\<lparr>calls := (calls r)[i := Returned]\<rparr>) \<and>
   (calls r ! i = Returned \<longrightarrow> arriveAndWait_step i r = r) \<and>
   numThreadsArrived (shared (run_calls sched (rendezvous_init n m))) =
     of_nat (called (run_calls sched (rendezvous_init n m))) \<and>
   (called (run_calls sched (rendezvous_init n m)) < 2 ^ 31 \<and>
    Returned \<in> set (calls (run_calls sched (rendezvous_init n m))) \<longrightarrow>
      sint n \<le> int (called (run_calls sched (rendezvous_init n m))))"
proof (intro conjI impI)
  show "numThreadsArrived (shared (run_calls sched (rendezvous_init n m))) =
      of_nat (called (run_calls sched (rendezvous_init n m)))"
    by (rule run_counter [OF init_counter])
  assume "called (run_calls sched (rendezvous_init n m)) < 2 ^ 31 \<and>
    Returned \<in> set (calls (run_calls sched (rendezvous_init n m)))"
  then show "sint n \<le> int (called (run_calls sched (rendezvous_init n m)))"
    using returned_after_enough [of sched n m] by simp
qed (simp_all add: new_Barrier_def arriveAndWait_step_def arrive_def must_wait_def)

theorem arriveAndWait_protocol_witness:
  "numThreadsArrived (new_Barrier 2) = 0 \<and>
   arriveAndWait_step 0 (rendezvous_init 2 2) =
     \<lparr>shared = \<lparr>numThreadsArrived = 1, numTotalThreads = 2\<rparr>, calls = [Polling, NotCalled]\<rparr> \<and>
   arriveAndWait_step 0 (run_calls [0] (rendezvous_init 2 2)) = run_calls [0] (rendezvous_init 2 2) \<and>
   arriveAndWait_step 0 (run_calls [0, 1] (rendezvous_init 2 2)) =
     \<lparr>shared = \<lparr>numThreadsArrived = 2, numTotalThreads = 2\<rparr>, calls = [Returned, Polling]\<rparr> \<and>
   arriveAndWait_step 0 (run_calls [0, 1, 0] (rendezvous_init 2 2)) =
     run_calls [0, 1, 0] (rendezvous_init 2 2) \<and>
   Returned \<in> set (calls (run_calls [0, 1, 0] (rendezvous_init 2 2))) \<and>
   called (run_calls [0, 1, 0] (rendezvous_init 2 2)) = 2 \<and>
   sint (2 :: 32 word) \<le> int (called (run_calls [0, 1, 0] (rendezvous_init 2 2)))"
  using arriveAndWait_protocol [of 2 0 "rendezvous_init 2 2" "[]" 2]
    arriveAndWait_protocol [of 2 0 "run_calls [0] (rendezvous_init 2 2)" "[]" 2]
    arriveAndWait_protocol [of 2 0 "run_calls [0, 1] (rendezvous_init 2 2)" "[0, 1, 0]" 2]
    arriveAndWait_protocol [of 2 0 "run_calls [0, 1, 0] (rendezvous_init 2 2)" "[0, 1, 0]" 2]
  by (simp add: rendezvous_init_def new_Barrier_def arriveAndWait_step_def arrive_def
      must_wait_def called_def numeral_2_eq_2)

subsection \<open>Invariants of every execution of a benchmark\<close>

lemma sint_succ: "0 \<le> sint x \<Longrightarrow> sint x \<le> 3 \<Longrightarrow> sint (x + 1 :: 32 word) = sint x + 1"
proof -
  assume a: "0 \<le> sint x" "sint x \<le> 3"
  have "sint (x + 1) = signed_take_bit 31 (sint x + 1)"
    by (simp add: sint_word_ariths)
  also have "\<dots> = sint x + 1"
    using a by (intro signed_take_bit_int_eq_self) auto
  finally show ?thesis .
qed

lemma life_init: "life (benchmark_init n t0 hz)"
  by (simp add: life_def benchmark_init_def)

lemma life_step: "life s \<Longrightarrow> life (step sc e s)"
proof (cases e)
  case Tick
  then show "life s \<Longrightarrow> life (step sc e s)" by (simp add: step_def life_def)
next
  case (Act t)
  show "life s \<Longrightarrow> life (step sc e s)"
  proof (cases t)
    case Controller
    assume "life s"
    then show ?thesis using Act Controller
      by (cases "cpc s") (auto simp: step_def life_def controller_step_def)
  next
    case (Worker w)
    assume "life s"
    then show ?thesis using Act Worker
      by (cases w; cases "wpc s w")
        (auto simp: step_def life_def worker_step_def split: guard.splits)
  qed
qed

lemma shape_init: "shape sc (benchmark_init n t0 hz) w"
  by (simp add: shape_def benchmark_init_def)

lemma shape_step: "shape sc s w \<Longrightarrow> shape sc (step sc e s) w"
proof (cases e)
  case Tick
  then show "shape sc s w \<Longrightarrow> shape sc (step sc e s) w" by (simp add: step_def shape_def)
next
  case (Act t)
  show "shape sc s w \<Longrightarrow> shape sc (step sc e s) w"
  proof (cases t)
    case Controller
    assume "shape sc s w"
    then show ?thesis using Act Controller
      by (cases "cpc s") (auto simp: step_def shape_def controller_step_def)
  next
    case (Worker v)
    assume "shape sc s w"
    then show ?thesis using Act Worker
      by (cases "v = w"; cases "wpc s v")
        (auto simp: step_def shape_def worker_step_def split: guard.splits)
  qed
qed

lemma bar_init: "bar sc (benchmark_init n t0 hz)"
  by (simp add: bar_def benchmark_init_def)

lemma bar_controller:
  assumes "life s" "bar sc s"
  shows "bar sc (controller_step sc s)"
  using assms
  by (cases "cpc s")
    (auto simp: bar_def life_def controller_step_def arrivals_def anyone_passed_def
      new_Barrier_def arrive_def must_wait_def sint_succ)

lemma bar_worker:
  assumes "bar sc s"
  shows "bar sc (worker_step sc w s)"
  using assms
  by (cases w; cases "wpc s w")
    (auto simp: bar_def worker_step_def arrivals_def anyone_passed_def
          arrive_def must_wait_def sint_succ split: guard.splits)

lemma bar_step: "life s \<Longrightarrow> bar sc s \<Longrightarrow> bar sc (step sc e s)"
proof (cases e)
  case Tick
  then show "bar sc s \<Longrightarrow> bar sc (step sc e s)"
    by (simp add: step_def bar_def arrivals_def anyone_passed_def)
next
  case (Act t)
  then show "life s \<Longrightarrow> bar sc s \<Longrightarrow> bar sc (step sc e s)"
    by (cases t) (simp_all add: step_def bar_controller bar_worker)
qed

lemma sound_init: "sound sc (benchmark_init n t0 hz)"
  by (simp add: sound_def life_init shape_init bar_init)

lemma sound_step: "sound sc s \<Longrightarrow> sound sc (step sc e s)"
  by (simp add: sound_def life_step shape_step bar_step)

lemma run_append: "run sc (xs @ ys) s = run sc ys (run sc xs s)"
  by (induction xs arbitrary: s) auto

lemma sound_run: "sound sc s \<Longrightarrow> sound sc (run sc es s)"
  by (induction es arbitrary: s) (auto simp: sound_step)

lemma spawned_has_barrier: "spawned w c \<Longrightarrow> has_barrier c"
  by (cases c; cases w) auto

lemma own_counter_init: "own_counter sc (benchmark_init n t0 hz) w"
  by (simp add: own_counter_def benchmark_init_def base_def declared_def split: scope.splits)

lemma own_counter_controller:
  assumes "life s" "shape sc s w" "own_counter sc s w"
  shows "own_counter sc (controller_step sc s) w"
  using assms
  by (cases "cpc s"; cases w)
    (auto simp: own_counter_def controller_step_def life_def shape_def base_def declared_def
      split: scope.splits)

lemma own_counter_self:
  assumes "life s" "shape sc s w" "own_counter sc s w"
  shows "own_counter sc (worker_step sc w s) w"
proof -
  have "has_barrier (cpc s)" if "wpc s w \<noteq> Unspawned"
    using that assms(1) spawned_has_barrier [of w "cpc s"] by (cases w) (auto simp: life_def)
  then show ?thesis using assms(2,3)
    by (cases "wpc s w")
      (auto simp: own_counter_def worker_step_def shape_def base_def declared_def
        split: scope.splits guard.splits)
qed

lemma own_counter_other:
  assumes "target sc v \<noteq> target sc w" "own_counter sc s w"
  shows "own_counter sc (worker_step sc v s) w"
proof -
  have "v \<noteq> w" using assms(1) by auto
  then show ?thesis using assms
    by (cases "wpc s v")
      (auto simp: own_counter_def worker_step_def base_def declared_def
        split: scope.splits guard.splits)
qed

subsection \<open>Counters under every interleaving\<close>

lemma private_counters_step:
  assumes "target sc ThreadA \<noteq> target sc ThreadB" "private_counters sc s"
  shows "private_counters sc (step sc e s)"
proof -
  have snd: "sound sc (step sc e s)" using assms(2) by (simp add: private_counters_def sound_step)
  have "own_counter sc (step sc e s) w" for w
  proof (cases e)
    case Tick
    then show ?thesis using assms(2)
      by (cases w; cases "scope sc")
        (simp_all add: private_counters_def step_def own_counter_def base_def declared_def)
  next
    case (Act t)
    show ?thesis
    proof (cases t)
      case Controller
      then show ?thesis using Act assms(2)
        by (cases w) (simp_all add: private_counters_def sound_def step_def own_counter_controller)
    next
      case (Worker v)
      show ?thesis
      proof (cases "v = w")
        case True
        then show ?thesis using Act Worker assms(2)
          by (cases w) (simp_all add: private_counters_def sound_def step_def own_counter_self)
      next
        case False
        then have "target sc v \<noteq> target sc w" using assms(1) by (cases v; cases w) auto
        then show ?thesis using Act Worker assms(2)
          by (cases w) (simp_all add: private_counters_def step_def own_counter_other)
      qed
    qed
  qed
  then show ?thesis using snd by (simp add: private_counters_def)
qed

lemma private_counters_run:
  "target sc ThreadA \<noteq> target sc ThreadB \<Longrightarrow> private_counters sc s \<Longrightarrow>
   private_counters sc (run sc es s)"
  by (induction es arbitrary: s) (auto simp: private_counters_step)

lemma private_counters_init: "private_counters sc (benchmark_init n t0 hz)"
  by (simp add: private_counters_def sound_init own_counter_init)

lemma shared_counter_init: "shares sc \<Longrightarrow> shared_counter sc (benchmark_init n t0 hz)"
  by (simp add: shared_counter_def benchmark_init_def base_def declared_def shares_def
      split: scope.splits)

lemma life_facts:
  assumes "life s"
  shows "cpc s = TrialLocals \<Longrightarrow> wpc s w = Unspawned"
    and "cpc s = SpawnA \<Longrightarrow> wpc s w = Unspawned"
    and "cpc s = SpawnB \<Longrightarrow> wpc s ThreadB = Unspawned"
    and "cpc s = Report \<Longrightarrow> wpc s w = Finished"
    and "cpc s = TakeEnd \<Longrightarrow> wpc s w = Finished"
  using assms by (cases w; simp add: life_def)+

lemma shared_counter_controller:
  assumes "shares sc" "life s" "shape sc s ThreadA" "shape sc s ThreadB" "shared_counter sc s"
  shows "shared_counter sc (controller_step sc s)"
proof -
  note lf = life_facts [OF assms(2)]
  have fin: "idx s w = iterations sc" if "cpc s = Report" for w
    using lf(4) [OF that, of w] assms(3,4) by (cases w) (simp_all add: shape_def)
  show ?thesis
    using assms(1,5) lf(1) [of ThreadA] lf(1) [of ThreadB] lf(2) [of ThreadA] lf(3)
      lf(4) [of ThreadA] lf(4) [of ThreadB] fin [of ThreadA] fin [of ThreadB]
    by (cases "scope sc"; cases "cpc s")
      (auto simp: shared_counter_def controller_step_def base_def declared_def shares_def)
qed

lemma shared_counter_worker:
  assumes "shares sc" "life s" "shape sc s ThreadA" "shape sc s ThreadB" "shared_counter sc s"
  shows "shared_counter sc (worker_step sc w s)"
proof -
  have "has_barrier (cpc s)" if "wpc s w \<noteq> Unspawned"
    using that assms(2) spawned_has_barrier [of w "cpc s"] by (cases w) (auto simp: life_def)
  then show ?thesis using assms(1,3,4,5)
    by (cases "guard sc"; cases "scope sc"; cases w; cases "wpc s w")
      (auto simp: shared_counter_def worker_step_def shape_def base_def declared_def
        shares_def)
qed

lemma shared_inv_init: "shares sc \<Longrightarrow> shared_inv sc (benchmark_init n t0 hz)"
  by (simp add: shared_inv_def sound_init shared_counter_init)

lemma shared_counter_tick: "shared_counter sc s \<Longrightarrow> shared_counter sc (s\<lparr>clock := t\<rparr>)"
  by (cases "scope sc") (simp_all add: shared_counter_def base_def declared_def)

lemma shared_inv_step:
  assumes "shares sc" "shared_inv sc s"
  shows "shared_inv sc (step sc e s)"
proof -
  have "shared_counter sc (step sc e s)"
  proof (cases e)
    case Tick
    then show ?thesis using assms(2) by (simp add: step_def shared_inv_def shared_counter_tick)
  next
    case (Act t)
    then show ?thesis using assms
      by (cases t)
        (simp_all add: step_def shared_inv_def sound_def shared_counter_controller
          shared_counter_worker)
  qed
  then show ?thesis using assms(2) by (simp add: shared_inv_def sound_step)
qed

lemma shared_inv_run: "shares sc \<Longrightarrow> shared_inv sc s \<Longrightarrow> shared_inv sc (run sc es s)"
  by (induction es arbitrary: s) (auto simp: shared_inv_step)

lemma timing_init: "timing n hz (benchmark_init n t0 hz)"
  by (simp add: timing_def benchmark_init_def)

lemma timing_step: "timing n hz s \<Longrightarrow> timing n hz (step sc e s)"
proof (cases e)
  case Tick
  then show "timing n hz s \<Longrightarrow> timing n hz (step sc e s)"
    by (auto simp: step_def timing_def)
next
  case (Act t)
  show "timing n hz s \<Longrightarrow> timing n hz (step sc e s)"
  proof (cases t)
    case Controller
    assume "timing n hz s"
    then show ?thesis using Act Controller
      by (cases "cpc s")
        (auto simp: step_def timing_def controller_step_def)
  next
    case (Worker w)
    assume "timing n hz s"
    then show ?thesis using Act Worker
      by (cases "wpc s w")
        (auto simp: step_def timing_def worker_step_def split: guard.splits)
  qed
qed

lemma timing_run: "timing n hz s \<Longrightarrow> timing n hz (run sc es s)"
  by (induction es arbitrary: s) (auto simp: timing_step)

subsection \<open>Trials can complete\<close>

lemma undisturbed_trans: "undisturbed w s s' \<Longrightarrow> undisturbed w s' s'' \<Longrightarrow> undisturbed w s s''"
  by (simp add: undisturbed_def)

lemma one_iteration:
  assumes "wpc s w = LoopTest" "idx s w < iterations sc" "\<forall>m. owner s m = None"
  shows "wpc (run sc (iteration sc w) s) w = LoopTest \<and>
         idx (run sc (iteration sc w) s) w = Suc (idx s w) \<and>
         (\<forall>m. owner (run sc (iteration sc w) s) m = None) \<and>
         undisturbed w s (run sc (iteration sc w) s)"
  using assms
  by (cases "guard sc") (simp_all add: iteration_def step_def worker_step_def undisturbed_def)

lemma iterations_run:
  assumes "wpc s w = LoopTest" "idx s w + k \<le> iterations sc" "\<forall>m. owner s m = None"
  shows "wpc (run sc (concat (replicate k (iteration sc w))) s) w = LoopTest \<and>
         idx (run sc (concat (replicate k (iteration sc w))) s) w = idx s w + k \<and>
         (\<forall>m. owner (run sc (concat (replicate k (iteration sc w))) s) m = None) \<and>
         undisturbed w s (run sc (concat (replicate k (iteration sc w))) s)"
  using assms
proof (induction k arbitrary: s)
  case 0
  then show ?case by (simp add: undisturbed_def)
next
  case (Suc k)
  let ?s1 = "run sc (iteration sc w) s"
  have lt: "idx s w < iterations sc" using Suc.prems(2) by simp
  note one = one_iteration [OF Suc.prems(1) lt Suc.prems(3)]
  have "wpc (run sc (concat (replicate k (iteration sc w))) ?s1) w = LoopTest \<and>
      idx (run sc (concat (replicate k (iteration sc w))) ?s1) w = idx ?s1 w + k \<and>
      (\<forall>m. owner (run sc (concat (replicate k (iteration sc w))) ?s1) m = None) \<and>
      undisturbed w ?s1 (run sc (concat (replicate k (iteration sc w))) ?s1)"
    by (rule Suc.IH) (use one Suc.prems(2) in simp_all)
  then show ?case using one undisturbed_trans [of w s ?s1]
    by (simp add: run_append)
qed

lemma solo_run:
  assumes "wpc s w = WPoll" "\<not> must_wait (barrier s)" "\<forall>m. owner s m = None"
  shows "wpc (run sc (solo sc w) s) w = Finished \<and>
         (\<forall>m. owner (run sc (solo sc w) s) m = None) \<and>
         undisturbed w s (run sc (solo sc w) s)"
proof -
  define s1 where "s1 = run sc [Act (Worker w), Act (Worker w)] s"
  define s2 where "s2 = run sc (concat (replicate (iterations sc) (iteration sc w))) s1"
  define s3 where "s3 = run sc [Act (Worker w)] s2"
  have a: "wpc s1 w = LoopTest" "idx s1 w = 0" "\<forall>m. owner s1 m = None" "undisturbed w s s1"
    unfolding s1_def using assms by (simp_all add: step_def worker_step_def undisturbed_def)
  have b: "wpc s2 w = LoopTest \<and> idx s2 w = idx s1 w + iterations sc \<and>
      (\<forall>m. owner s2 m = None) \<and> undisturbed w s1 s2"
    unfolding s2_def by (rule iterations_run) (use a in simp_all)
  have c: "wpc s3 w = Finished" "\<forall>m. owner s3 m = None" "undisturbed w s2 s3"
    unfolding s3_def using b a(2) by (simp_all add: step_def worker_step_def undisturbed_def)
  have "undisturbed w s s3"
    using a(4) b c(3) undisturbed_trans by blast
  moreover have "run sc (solo sc w) s = s3"
    by (simp only: solo_def run_append s1_def s2_def s3_def)
  ultimately show ?thesis using c by simp
qed

lemma to_join_run:
  assumes "idle s" "0 < iters_left s" "sint (barrier_size sc) \<le> 3"
  shows "cpc (run sc (to_join sc) s) = TakeEnd \<and>
         (\<forall>w. wpc (run sc (to_join sc) s) w = Finished) \<and>
         (\<forall>m. owner (run sc (to_join sc) s) m = None) \<and>
         iters_left (run sc (to_join sc) s) = iters_left s - 1 \<and>
         samples (run sc (to_join sc) s) = samples s \<and>
         ticks_per_second (run sc (to_join sc) s) = ticks_per_second s"
proof -
  define s1 where "s1 = run sc [Ctl, Ctl, Ctl, Ctl, Ctl, WA, WB, Ctl, Ctl] s"
  define s2 where "s2 = run sc (solo sc ThreadA) s1"
  define s3 where "s3 = run sc (solo sc ThreadB) s2"
  define s4 where "s4 = run sc [Ctl, Ctl] s3"
  have a: "cpc s1 = JoinA" "wpc s1 ThreadA = WPoll" "wpc s1 ThreadB = WPoll"
    "\<not> must_wait (barrier s1)" "\<forall>m. owner s1 m = None" "iters_left s1 = iters_left s - 1"
    "samples s1 = samples s" "ticks_per_second s1 = ticks_per_second s"
    unfolding s1_def using assms
    by (simp_all add: idle_def step_def controller_step_def worker_step_def new_Barrier_def
        arrive_def must_wait_def)
  have b: "wpc s2 ThreadA = Finished \<and> (\<forall>m. owner s2 m = None) \<and> undisturbed ThreadA s1 s2"
    unfolding s2_def by (rule solo_run) (use a in simp_all)
  then have b': "wpc s2 ThreadB = WPoll" "\<not> must_wait (barrier s2)"
    using a by (simp_all add: undisturbed_def)
  have c: "wpc s3 ThreadB = Finished \<and> (\<forall>m. owner s3 m = None) \<and> undisturbed ThreadB s2 s3"
    unfolding s3_def by (rule solo_run) (use b b' in simp_all)
  have d: "cpc s3 = JoinA" "wpc s3 ThreadA = Finished" "wpc s3 ThreadB = Finished"
    "iters_left s3 = iters_left s - 1" "samples s3 = samples s"
    "ticks_per_second s3 = ticks_per_second s" "\<forall>m. owner s3 m = None"
    using a b c by (simp_all add: undisturbed_def)
  have e: "cpc s4 = TakeEnd" "wpc s4 ThreadA = Finished" "wpc s4 ThreadB = Finished"
    "iters_left s4 = iters_left s - 1" "samples s4 = samples s"
    "ticks_per_second s4 = ticks_per_second s" "\<forall>m. owner s4 m = None"
    unfolding s4_def using d by (simp_all add: step_def controller_step_def)
  have all: "wpc s4 w = Finished" for w using e(2,3) by (cases w) simp_all
  have "run sc (to_join sc) s = s4"
    by (simp only: to_join_def run_append s1_def s2_def s3_def s4_def)
  then show ?thesis using e all by simp
qed

lemma one_trial_run:
  assumes "idle s" "0 < iters_left s" "sint (barrier_size sc) \<le> 3"
  shows "idle (run sc (one_trial sc) s) \<and>
         iters_left (run sc (one_trial sc) s) = iters_left s - 1 \<and>
         length (samples (run sc (one_trial sc) s)) = Suc (length (samples s))"
proof -
  define s4 where "s4 = run sc (to_join sc) s"
  have e: "cpc s4 = TakeEnd \<and> (\<forall>w. wpc s4 w = Finished) \<and> (\<forall>m. owner s4 m = None) \<and>
      iters_left s4 = iters_left s - 1 \<and> samples s4 = samples s \<and>
      ticks_per_second s4 = ticks_per_second s"
    unfolding s4_def by (rule to_join_run [OF assms])
  have "idle (run sc [Ctl, Ctl] s4) \<and> iters_left (run sc [Ctl, Ctl] s4) = iters_left s - 1 \<and>
      length (samples (run sc [Ctl, Ctl] s4)) = Suc (length (samples s))"
    using e by (simp add: idle_def step_def controller_step_def)
  moreover have "run sc (one_trial sc) s = run sc [Ctl, Ctl] s4"
    by (simp only: one_trial_def run_append s4_def)
  ultimately show ?thesis by simp
qed

lemma trials_run:
  assumes "idle s" "k \<le> iters_left s" "sint (barrier_size sc) \<le> 3"
  shows "idle (run sc (concat (replicate k (one_trial sc))) s) \<and>
         iters_left (run sc (concat (replicate k (one_trial sc))) s) = iters_left s - k \<and>
         length (samples (run sc (concat (replicate k (one_trial sc))) s)) = length (samples s) + k"
  using assms
proof (induction k arbitrary: s)
  case 0
  then show ?case by simp
next
  case (Suc k)
  define s1 where "s1 = run sc (one_trial sc) s"
  have one: "idle s1 \<and> iters_left s1 = iters_left s - 1 \<and>
      length (samples s1) = Suc (length (samples s))"
    unfolding s1_def by (rule one_trial_run) (use Suc.prems in simp_all)
  have "idle (run sc (concat (replicate k (one_trial sc))) s1) \<and>
      iters_left (run sc (concat (replicate k (one_trial sc))) s1) = iters_left s1 - k \<and>
      length (samples (run sc (concat (replicate k (one_trial sc))) s1)) = length (samples s1) + k"
    by (rule Suc.IH) (use one Suc.prems in simp_all)
  moreover have "run sc (concat (replicate (Suc k) (one_trial sc))) s =
      run sc (concat (replicate k (one_trial sc))) s1"
    by (simp add: run_append s1_def)
  ultimately show ?case using one by simp
qed

lemma idle_init: "idle (benchmark_init n t0 hz)"
  by (simp add: idle_def benchmark_init_def)

lemma benchmark_completes:
  assumes "sint (barrier_size sc) \<le> 3"
  shows "cpc (run sc (concat (replicate n (one_trial sc)) @ [Ctl]) (benchmark_init n t0 hz)) = Exited"
proof -
  define s where "s = run sc (concat (replicate n (one_trial sc))) (benchmark_init n t0 hz)"
  have "idle s \<and> iters_left s = iters_left (benchmark_init n t0 hz) - n \<and>
      length (samples s) = length (samples (benchmark_init n t0 hz)) + n"
    unfolding s_def by (rule trials_run [OF idle_init _ assms]) (simp add: benchmark_init_def)
  then have "cpc (run sc [Ctl] s) = Exited"
    by (simp add: idle_def step_def controller_step_def benchmark_init_def)
  then show ?thesis by (simp only: run_append s_def)
qed

lemma trial_reaches_join:
  assumes "sint (barrier_size sc) \<le> 3" "k < n"
  shows "cpc (run sc (concat (replicate k (one_trial sc)) @ to_join sc) (benchmark_init n t0 hz))
           = TakeEnd \<and>
         length (samples (run sc (concat (replicate k (one_trial sc)) @ to_join sc)
           (benchmark_init n t0 hz))) = k"
proof -
  define s where "s = run sc (concat (replicate k (one_trial sc))) (benchmark_init n t0 hz)"
  have a: "idle s \<and> iters_left s = iters_left (benchmark_init n t0 hz) - k \<and>
      length (samples s) = length (samples (benchmark_init n t0 hz)) + k"
    unfolding s_def
    by (rule trials_run [OF idle_init _ assms(1)]) (use assms(2) in \<open>simp add: benchmark_init_def\<close>)
  then have "0 < iters_left s" using assms(2) by (simp add: benchmark_init_def)
  then have "cpc (run sc (to_join sc) s) = TakeEnd \<and> samples (run sc (to_join sc) s) = samples s"
    using to_join_run [of s sc] a assms(1) by simp
  then have "cpc (run sc (to_join sc) s) = TakeEnd \<and> length (samples (run sc (to_join sc) s)) = k"
    using a by (simp add: benchmark_init_def)
  then show ?thesis by (simp only: run_append s_def)
qed

subsection \<open>Final values of the counters\<close>

lemmas sched_defs = sched_start_def locked_work_def plain_work_def atomic_work_def
  sched_join_def sched_report_def

lemmas step_defs = step_def controller_step_def worker_step_def benchmark_init_def
  new_Barrier_def arrive_def must_wait_def elapsed_seconds_def

lemma shares_useMutex: "shares (BM_useMutex\<lparr>iterations := I\<rparr>)"
  by (simp add: shares_def BM_useMutex_def)

lemma shares_useAtomic: "shares (BM_useAtomic\<lparr>iterations := I\<rparr>)"
  by (simp add: shares_def BM_useAtomic_def)

lemma sound_done:
  assumes "sound sc s" "cpc s = TakeEnd \<or> cpc s = Report"
  shows "wpc s w = Finished" "idx s w = iterations sc"
proof -
  show f: "wpc s w = Finished"
    using assms by (cases w) (auto simp: sound_def life_def)
  then show "idx s w = iterations sc"
    using assms(1) by (cases w) (auto simp: sound_def shape_def)
qed

lemma sound_idle:
  assumes "sound sc s" "between_trials (cpc s)"
  shows "wpc s w = Unspawned"
  using assms by (cases w; cases "cpc s") (auto simp: sound_def life_def)

lemma shared_joined:
  assumes "shares sc"
    and "cpc (run sc es (benchmark_init n t0 hz)) = TakeEnd \<or>
         cpc (run sc es (benchmark_init n t0 hz)) = Report"
  shows "mem (run sc es (benchmark_init n t0 hz)) (target sc ThreadA) =
         of_nat (2 * base sc (run sc es (benchmark_init n t0 hz)) + 2 * iterations sc)"
proof -
  let ?s = "run sc es (benchmark_init n t0 hz)"
  have inv: "shared_inv sc ?s"
    by (intro shared_inv_run shared_inv_init assms(1))
  then have snd: "sound sc ?s" by (simp add: shared_inv_def)
  have "declared sc ?s ThreadA"
    using assms by (cases "scope sc") (auto simp: declared_def shares_def)
  then have "mem ?s (target sc ThreadA) =
      of_nat (2 * base sc ?s + completed (wpc ?s ThreadA) (idx ?s ThreadA)
              + completed (wpc ?s ThreadB) (idx ?s ThreadB))"
    using inv by (simp add: shared_inv_def shared_counter_def)
  then show ?thesis
    using sound_done [OF snd assms(2), of ThreadA] sound_done [OF snd assms(2), of ThreadB]
    by simp
qed

lemma small_barriers:
  "sint (barrier_size (BM_falseSharing\<lparr>iterations := I\<rparr>)) \<le> 3"
  "sint (barrier_size (BM_noFalseSharing\<lparr>iterations := I\<rparr>)) \<le> 3"
  "sint (barrier_size (BM_useMutex\<lparr>iterations := I\<rparr>)) \<le> 3"
  "sint (barrier_size (BM_useMutexNoContention\<lparr>iterations := I\<rparr>)) \<le> 3"
  "sint (barrier_size (BM_useAtomic\<lparr>iterations := I\<rparr>)) \<le> 3"
  by (simp_all add: BM_falseSharing_def BM_noFalseSharing_def BM_useMutex_def
      BM_useMutexNoContention_def BM_useAtomic_def)

lemma source_constants:
  "BM_falseSharing\<lparr>iterations := kNumIterationsFalseSharing\<rparr> = BM_falseSharing"
  "BM_useMutex\<lparr>iterations := kNumIterationsMutex\<rparr> = BM_useMutex"
  "BM_useMutexNoContention\<lparr>iterations := kNumIterationsMutex\<rparr> = BM_useMutexNoContention"
  "BM_useAtomic\<lparr>iterations := kNumIterationsMutex\<rparr> = BM_useAtomic"
  by (simp_all add: BM_falseSharing_def BM_useMutex_def BM_useMutexNoContention_def
      BM_useAtomic_def)

lemma useMutex_trial:
  assumes "k < n"
  shows "cpc (run BM_useMutex (concat (replicate k (one_trial BM_useMutex)) @ to_join BM_useMutex)
           (benchmark_init n t0 hz)) = TakeEnd"
    and "mem (run BM_useMutex (concat (replicate k (one_trial BM_useMutex)) @ to_join BM_useMutex)
           (benchmark_init n t0 hz)) Counter = of_nat (k * 2000000 + 2000000)"
proof -
  let ?es = "concat (replicate k (one_trial BM_useMutex)) @ to_join BM_useMutex"
  let ?s = "run BM_useMutex ?es (benchmark_init n t0 hz)"
  have "sint (barrier_size BM_useMutex) \<le> 3"
    using small_barriers(3) [of kNumIterationsMutex] by (simp only: source_constants)
  from trial_reaches_join [OF this assms, of t0 hz]
  have j: "cpc ?s = TakeEnd" "length (samples ?s) = k" by simp_all
  show "cpc ?s = TakeEnd" by (rule j)
  have "shares BM_useMutex"
    using shares_useMutex [of kNumIterationsMutex] by (simp only: source_constants)
  from shared_joined [OF this, of ?es n t0 hz] j
  show "mem ?s Counter = of_nat (k * 2000000 + 2000000)"
    by (simp add: base_def BM_useMutex_def kNumIterationsMutex_def algebra_simps del: run.simps)
qed

lemma useAtomic_trial:
  assumes "k < n"
  shows "cpc (run BM_useAtomic (concat (replicate k (one_trial BM_useAtomic)) @ to_join BM_useAtomic)
           (benchmark_init n t0 hz)) = TakeEnd"
    and "mem (run BM_useAtomic (concat (replicate k (one_trial BM_useAtomic)) @ to_join BM_useAtomic)
           (benchmark_init n t0 hz)) Counter = 2000000"
proof -
  let ?es = "concat (replicate k (one_trial BM_useAtomic)) @ to_join BM_useAtomic"
  let ?s = "run BM_useAtomic ?es (benchmark_init n t0 hz)"
  have "sint (barrier_size BM_useAtomic) \<le> 3"
    using small_barriers(5) [of kNumIterationsMutex] by (simp only: source_constants)
  from trial_reaches_join [OF this assms, of t0 hz]
  have j: "cpc ?s = TakeEnd" by simp
  show "cpc ?s = TakeEnd" by (rule j)
  have "shares BM_useAtomic"
    using shares_useAtomic [of kNumIterationsMutex] by (simp only: source_constants)
  from shared_joined [OF this, of ?es n t0 hz] j
  show "mem ?s Counter = 2000000"
    by (simp add: base_def BM_useAtomic_def kNumIterationsMutex_def del: run.simps)
qed

text \<open>
  Claim C2, as amended. The shared-mutex and the atomic scenario lose no update under any
  interleaving. When both workers of a trial have been joined, the counter of the atomic
  scenario, declared inside the trial, equals \<open>2 * I\<close>; the counter of the shared-mutex
  scenario, declared before the loop over trials, equals \<open>2 * I\<close> more than the \<open>k * (2 * I)\<close>
  it held after the \<open>k\<close> trials already reported, so it equals \<open>2 * I\<close> in the first trial
  only. Values are 32-bit; with the source's \<open>I = 1000000\<close>, \<open>2 * I\<close> is 2000000. The
  schedule \<open>to_join\<close> completes a trial of the source's one million iterations: after it the
  shared-mutex counter is 2000000 in the first trial, and the atomic counter is 2000000 in
  every trial.
\<close>

theorem guarded_counter_exact:
  "(cpc (run (BM_useMutex\<lparr>iterations := I\<rparr>) es (benchmark_init n t0 hz)) = TakeEnd \<or>
    cpc (run (BM_useMutex\<lparr>iterations := I\<rparr>) es (benchmark_init n t0 hz)) = Report \<longrightarrow>
      mem (run (BM_useMutex\<lparr>iterations := I\<rparr>) es (benchmark_init n t0 hz)) Counter =
        of_nat (length (samples (run (BM_useMutex\<lparr>iterations := I\<rparr>) es (benchmark_init n t0 hz)))
                * (2 * I) + 2 * I)) \<and>
   (cpc (run (BM_useAtomic\<lparr>iterations := I\<rparr>) es' (benchmark_init n t0 hz)) = TakeEnd \<or>
    cpc (run (BM_useAtomic\<lparr>iterations := I\<rparr>) es' (benchmark_init n t0 hz)) = Report \<longrightarrow>
      mem (run (BM_useAtomic\<lparr>iterations := I\<rparr>) es' (benchmark_init n t0 hz)) Counter =
        of_nat (2 * I)) \<and>
   BM_useMutex\<lparr>iterations := kNumIterationsMutex\<rparr> = BM_useMutex \<and>
   BM_useAtomic\<lparr>iterations := kNumIterationsMutex\<rparr> = BM_useAtomic \<and>
   unat (of_nat (2 * kNumIterationsMutex) :: 32 word) = 2000000 \<and>
   sint (of_nat (2 * kNumIterationsMutex) :: 32 word) = 2000000 \<and>
   cpc (run BM_useMutex (to_join BM_useMutex) (benchmark_init (Suc k) t0 hz)) = TakeEnd \<and>
   mem (run BM_useMutex (to_join BM_useMutex) (benchmark_init (Suc k) t0 hz)) Counter = 2000000 \<and>
   cpc (run BM_useAtomic (concat (replicate k (one_trial BM_useAtomic)) @ to_join BM_useAtomic)
     (benchmark_init (Suc k) t0 hz)) = TakeEnd \<and>
   mem (run BM_useAtomic (concat (replicate k (one_trial BM_useAtomic)) @ to_join BM_useAtomic)
     (benchmark_init (Suc k) t0 hz)) Counter = 2000000"
proof (intro conjI impI)
  let ?m = "BM_useMutex\<lparr>iterations := I\<rparr>"
  let ?s = "run ?m es (benchmark_init n t0 hz)"
  assume e: "cpc ?s = TakeEnd \<or> cpc ?s = Report"
  show "mem ?s Counter = of_nat (length (samples ?s) * (2 * I) + 2 * I)"
    using shared_joined [OF shares_useMutex e]
    by (simp add: base_def BM_useMutex_def algebra_simps del: run.simps)
next
  let ?a = "BM_useAtomic\<lparr>iterations := I\<rparr>"
  let ?s = "run ?a es' (benchmark_init n t0 hz)"
  assume e: "cpc ?s = TakeEnd \<or> cpc ?s = Report"
  show "mem ?s Counter = of_nat (2 * I)"
    using shared_joined [OF shares_useAtomic e]
    by (simp add: base_def BM_useAtomic_def del: run.simps)
next
  show "cpc (run BM_useMutex (to_join BM_useMutex) (benchmark_init (Suc k) t0 hz)) = TakeEnd"
    "mem (run BM_useMutex (to_join BM_useMutex) (benchmark_init (Suc k) t0 hz)) Counter = 2000000"
    using useMutex_trial [of 0 "Suc k" t0 hz] by (simp_all del: run.simps)
  show "cpc (run BM_useAtomic (concat (replicate k (one_trial BM_useAtomic)) @ to_join BM_useAtomic)
     (benchmark_init (Suc k) t0 hz)) = TakeEnd"
    "mem (run BM_useAtomic (concat (replicate k (one_trial BM_useAtomic)) @ to_join BM_useAtomic)
     (benchmark_init (Suc k) t0 hz)) Counter = 2000000"
    using useAtomic_trial [of k "Suc k" t0 hz] by simp_all
  show "BM_useMutex\<lparr>iterations := kNumIterationsMutex\<rparr> = BM_useMutex"
    "BM_useAtomic\<lparr>iterations := kNumIterationsMutex\<rparr> = BM_useAtomic"
    by (rule source_constants)+
  show "unat (of_nat (2 * kNumIterationsMutex) :: 32 word) = 2000000"
    "sint (of_nat (2 * kNumIterationsMutex) :: 32 word) = 2000000"
    by (simp_all add: kNumIterationsMutex_def)
qed

theorem guarded_counter_exact_witness:
  "cpc (run (BM_useMutex\<lparr>iterations := 1\<rparr>) (sched_start @ locked_work @ sched_join)
      (benchmark_init 1 0 1)) = TakeEnd \<and>
   mem (run (BM_useMutex\<lparr>iterations := 1\<rparr>) (sched_start @ locked_work @ sched_join)
      (benchmark_init 1 0 1)) Counter = 2 \<and>
   cpc (run (BM_useAtomic\<lparr>iterations := 1\<rparr>) (sched_start @ atomic_work @ sched_join)
      (benchmark_init 1 0 1)) = TakeEnd \<and>
   mem (run (BM_useAtomic\<lparr>iterations := 1\<rparr>) (sched_start @ atomic_work @ sched_join)
      (benchmark_init 1 0 1)) Counter = 2"
proof -
  have m: "cpc (run (BM_useMutex\<lparr>iterations := 1\<rparr>) (sched_start @ locked_work @ sched_join)
      (benchmark_init 1 0 1)) = TakeEnd"
    "samples (run (BM_useMutex\<lparr>iterations := 1\<rparr>) (sched_start @ locked_work @ sched_join)
      (benchmark_init 1 0 1)) = []"
    by (simp_all add: sched_defs step_defs BM_useMutex_def)
  have a: "cpc (run (BM_useAtomic\<lparr>iterations := 1\<rparr>) (sched_start @ atomic_work @ sched_join)
      (benchmark_init 1 0 1)) = TakeEnd"
    by (simp add: sched_defs step_defs BM_useAtomic_def)
  show ?thesis
    using m a guarded_counter_exact [of 1 "sched_start @ locked_work @ sched_join" 1 0 1
        "sched_start @ atomic_work @ sched_join"]
    by (simp del: run.simps)
qed

text \<open>
  The claim as stated fails for the shared-mutex scenario: when the workers of the second
  trial of \<^verbatim>\<open>BM_useMutex\<close> have been joined, each having made its one million increments,
  the counter is 4000000, not 2000000.
\<close>

theorem shared_mutex_counter_accumulates:
  "cpc (run BM_useMutex (one_trial BM_useMutex @ to_join BM_useMutex) (benchmark_init 2 0 1)) =
     TakeEnd \<and>
   mem (run BM_useMutex (one_trial BM_useMutex @ to_join BM_useMutex) (benchmark_init 2 0 1))
     Counter = 4000000 \<and>
   mem (run BM_useMutex (one_trial BM_useMutex @ to_join BM_useMutex) (benchmark_init 2 0 1))
     Counter \<noteq> of_nat (2 * kNumIterationsMutex)"
proof -
  have "cpc (run BM_useMutex (one_trial BM_useMutex @ to_join BM_useMutex) (benchmark_init 2 0 1)) =
     TakeEnd"
    using useMutex_trial(1) [of 1 2 0 1] by (simp del: run.simps)
  moreover have "mem (run BM_useMutex (one_trial BM_useMutex @ to_join BM_useMutex)
      (benchmark_init 2 0 1)) Counter = 4000000"
    using useMutex_trial(2) [of 1 2 0 1] by (simp del: run.simps)
  ultimately show ?thesis by (simp add: kNumIterationsMutex_def del: run.simps)
qed

lemma private_falseSharing:
  "target (BM_falseSharing\<lparr>iterations := I\<rparr>) ThreadA \<noteq>
   target (BM_falseSharing\<lparr>iterations := I\<rparr>) ThreadB"
  by (simp add: BM_falseSharing_def)

lemma private_noContention:
  "target (BM_useMutexNoContention\<lparr>iterations := I\<rparr>) ThreadA \<noteq>
   target (BM_useMutexNoContention\<lparr>iterations := I\<rparr>) ThreadB"
  by (simp add: BM_useMutexNoContention_def)

lemma own_counter_joined:
  assumes "private_counters sc s" "cpc s = TakeEnd \<or> cpc s = Report"
  shows "mem s (target sc w) = of_nat (base sc s + iterations sc)"
proof -
  have snd: "sound sc s" using assms(1) by (simp add: private_counters_def)
  note d = sound_done [OF snd assms(2), of w]
  have "declared sc s w"
    using d(1) assms(2) by (cases "scope sc") (auto simp: declared_def)
  moreover have "own_counter sc s w"
    using assms(1) by (cases w) (simp_all add: private_counters_def)
  ultimately show ?thesis using d by (simp add: own_counter_def)
qed

lemma falseSharing_trial:
  assumes "k < n"
  shows "cpc (run BM_falseSharing
           (concat (replicate k (one_trial BM_falseSharing)) @ to_join BM_falseSharing)
           (benchmark_init n t0 hz)) = TakeEnd"
    and "mem (run BM_falseSharing
           (concat (replicate k (one_trial BM_falseSharing)) @ to_join BM_falseSharing)
           (benchmark_init n t0 hz)) (target BM_falseSharing w) = of_nat (k * 1000000 + 1000000)"
proof -
  let ?es = "concat (replicate k (one_trial BM_falseSharing)) @ to_join BM_falseSharing"
  let ?s = "run BM_falseSharing ?es (benchmark_init n t0 hz)"
  have "sint (barrier_size BM_falseSharing) \<le> 3"
    using small_barriers(1) [of kNumIterationsFalseSharing] by (simp only: source_constants)
  from trial_reaches_join [OF this assms, of t0 hz]
  have j: "cpc ?s = TakeEnd" "length (samples ?s) = k" by simp_all
  show "cpc ?s = TakeEnd" by (rule j)
  have "target BM_falseSharing ThreadA \<noteq> target BM_falseSharing ThreadB"
    by (simp add: BM_falseSharing_def)
  then have "private_counters BM_falseSharing ?s"
    by (intro private_counters_run private_counters_init)
  from own_counter_joined [OF this, of w] j
  show "mem ?s (target BM_falseSharing w) = of_nat (k * 1000000 + 1000000)"
    by (simp add: base_def BM_falseSharing_def kNumIterationsFalseSharing_def del: run.simps)
qed

text \<open>
  Claim C6, as amended. In the false-sharing scenario each counter is written by one worker
  only, so no increment is lost: when both workers of a trial have been joined, each counter
  equals \<open>I\<close> more than the \<open>k * I\<close> it held after the \<open>k\<close> trials already reported (32-bit
  arithmetic). In the first trial of an invocation its value is therefore at most \<open>I\<close>.
  The schedule \<open>to_join\<close> completes a trial of the source's one million iterations: after
  it, in the first trial, both counters are 1000000.
\<close>

theorem false_sharing_counters_exact:
  "(cpc (run (BM_falseSharing\<lparr>iterations := I\<rparr>) es (benchmark_init n t0 hz)) = TakeEnd \<or>
    cpc (run (BM_falseSharing\<lparr>iterations := I\<rparr>) es (benchmark_init n t0 hz)) = Report \<longrightarrow>
      mem (run (BM_falseSharing\<lparr>iterations := I\<rparr>) es (benchmark_init n t0 hz)) CounterA =
        of_nat (length (samples (run (BM_falseSharing\<lparr>iterations := I\<rparr>) es
                  (benchmark_init n t0 hz))) * I + I) \<and>
      mem (run (BM_falseSharing\<lparr>iterations := I\<rparr>) es (benchmark_init n t0 hz)) CounterB =
        of_nat (length (samples (run (BM_falseSharing\<lparr>iterations := I\<rparr>) es
                  (benchmark_init n t0 hz))) * I + I) \<and>
      (samples (run (BM_falseSharing\<lparr>iterations := I\<rparr>) es (benchmark_init n t0 hz)) = [] \<longrightarrow>
         unat (mem (run (BM_falseSharing\<lparr>iterations := I\<rparr>) es (benchmark_init n t0 hz))
                CounterA) \<le> I \<and>
         unat (mem (run (BM_falseSharing\<lparr>iterations := I\<rparr>) es (benchmark_init n t0 hz))
                CounterB) \<le> I)) \<and>
   BM_falseSharing\<lparr>iterations := kNumIterationsFalseSharing\<rparr> = BM_falseSharing \<and>
   unat (of_nat kNumIterationsFalseSharing :: 32 word) = 1000000 \<and>
   cpc (run BM_falseSharing (to_join BM_falseSharing) (benchmark_init (Suc k) t0 hz)) = TakeEnd \<and>
   mem (run BM_falseSharing (to_join BM_falseSharing) (benchmark_init (Suc k) t0 hz)) CounterA =
     1000000 \<and>
   mem (run BM_falseSharing (to_join BM_falseSharing) (benchmark_init (Suc k) t0 hz)) CounterB =
     1000000"
proof (intro conjI impI)
  let ?f = "BM_falseSharing\<lparr>iterations := I\<rparr>"
  let ?s = "run ?f es (benchmark_init n t0 hz)"
  assume e: "cpc ?s = TakeEnd \<or> cpc ?s = Report"
  have inv: "private_counters ?f ?s"
    by (intro private_counters_run private_counters_init private_falseSharing)
  show a: "mem ?s CounterA = of_nat (length (samples ?s) * I + I)"
    using own_counter_joined [OF inv e, of ThreadA] by (simp add: base_def BM_falseSharing_def)
  show b: "mem ?s CounterB = of_nat (length (samples ?s) * I + I)"
    using own_counter_joined [OF inv e, of ThreadB] by (simp add: base_def BM_falseSharing_def)
  assume "samples ?s = []"
  then have "mem ?s CounterA = of_nat I" "mem ?s CounterB = of_nat I" using a b by simp_all
  then show "unat (mem ?s CounterA) \<le> I" "unat (mem ?s CounterB) \<le> I"
    by (simp_all add: unat_of_nat)
next
  show "BM_falseSharing\<lparr>iterations := kNumIterationsFalseSharing\<rparr> = BM_falseSharing"
    by (rule source_constants)
  show "unat (of_nat kNumIterationsFalseSharing :: 32 word) = 1000000"
    by (simp add: kNumIterationsFalseSharing_def)
  show "cpc (run BM_falseSharing (to_join BM_falseSharing) (benchmark_init (Suc k) t0 hz)) = TakeEnd"
    using falseSharing_trial(1) [of 0 "Suc k" t0 hz] by (simp del: run.simps)
  show "mem (run BM_falseSharing (to_join BM_falseSharing) (benchmark_init (Suc k) t0 hz)) CounterA =
     1000000"
    using falseSharing_trial(2) [of 0 "Suc k" t0 hz ThreadA]
    by (simp add: BM_falseSharing_def del: run.simps)
  show "mem (run BM_falseSharing (to_join BM_falseSharing) (benchmark_init (Suc k) t0 hz)) CounterB =
     1000000"
    using falseSharing_trial(2) [of 0 "Suc k" t0 hz ThreadB]
    by (simp add: BM_falseSharing_def del: run.simps)
qed

theorem false_sharing_counters_exact_witness:
  "cpc (run (BM_falseSharing\<lparr>iterations := 1\<rparr>) (sched_start @ plain_work @ sched_join)
      (benchmark_init 1 0 1)) = TakeEnd \<and>
   mem (run (BM_falseSharing\<lparr>iterations := 1\<rparr>) (sched_start @ plain_work @ sched_join)
      (benchmark_init 1 0 1)) CounterA = 1 \<and>
   mem (run (BM_falseSharing\<lparr>iterations := 1\<rparr>) (sched_start @ plain_work @ sched_join)
      (benchmark_init 1 0 1)) CounterB = 1 \<and>
   unat (mem (run (BM_falseSharing\<lparr>iterations := 1\<rparr>) (sched_start @ plain_work @ sched_join)
      (benchmark_init 1 0 1)) CounterA) \<le> 1"
proof -
  have c: "cpc (run (BM_falseSharing\<lparr>iterations := 1\<rparr>) (sched_start @ plain_work @ sched_join)
      (benchmark_init 1 0 1)) = TakeEnd"
    "samples (run (BM_falseSharing\<lparr>iterations := 1\<rparr>) (sched_start @ plain_work @ sched_join)
      (benchmark_init 1 0 1)) = []"
    by (simp_all add: sched_defs step_defs BM_falseSharing_def)
  show ?thesis
    using c false_sharing_counters_exact [of 1 "sched_start @ plain_work @ sched_join" 1 0 1]
    by (simp del: run.simps)
qed

text \<open>
  The claim as stated fails: when the workers of the second trial of \<^verbatim>\<open>BM_falseSharing\<close>
  have been joined, each having made its one million increments, \<^verbatim>\<open>counterA.val\<close> is
  2000000, which exceeds the iteration count.
\<close>

theorem false_sharing_counter_exceeds:
  "cpc (run BM_falseSharing (one_trial BM_falseSharing @ to_join BM_falseSharing)
     (benchmark_init 2 0 1)) = TakeEnd \<and>
   unat (mem (run BM_falseSharing (one_trial BM_falseSharing @ to_join BM_falseSharing)
     (benchmark_init 2 0 1)) CounterA) = 2000000 \<and>
   \<not> unat (mem (run BM_falseSharing (one_trial BM_falseSharing @ to_join BM_falseSharing)
     (benchmark_init 2 0 1)) CounterA) \<le> kNumIterationsFalseSharing"
proof -
  have "cpc (run BM_falseSharing (one_trial BM_falseSharing @ to_join BM_falseSharing)
     (benchmark_init 2 0 1)) = TakeEnd"
    using falseSharing_trial(1) [of 1 2 0 1] by (simp del: run.simps)
  moreover have "mem (run BM_falseSharing (one_trial BM_falseSharing @ to_join BM_falseSharing)
     (benchmark_init 2 0 1)) CounterA = 2000000"
    using falseSharing_trial(2) [of 1 2 0 1 ThreadA]
    by (simp add: BM_falseSharing_def del: run.simps)
  ultimately show ?thesis by (simp add: kNumIterationsFalseSharing_def del: run.simps)
qed

text \<open>
  Claim C7. In the independent-mutex scenario worker \<open>w\<close> increments its own counter
  \<open>Local w\<close> under its own mutex \<open>LocalMtx w\<close>, both constructed by the worker itself after
  the barrier. Whenever the worker has finished, its counter equals \<open>I\<close>. No action of the
  other worker, of the controller or of the clock changes \<open>Local w\<close> or \<open>LocalMtx w\<close>, in
  any state. The schedule \<open>to_join\<close> completes a trial of the source's one million
  iterations: after it, in every trial, both workers have finished with counter 1000000.
\<close>

theorem private_counters_exact:
  "(wpc (run (BM_useMutexNoContention\<lparr>iterations := I\<rparr>) es (benchmark_init n t0 hz)) w = Finished
      \<longrightarrow> mem (run (BM_useMutexNoContention\<lparr>iterations := I\<rparr>) es (benchmark_init n t0 hz))
            (Local w) = of_nat I) \<and>
   target (BM_useMutexNoContention\<lparr>iterations := I\<rparr>) w = Local w \<and>
   mutex_of (BM_useMutexNoContention\<lparr>iterations := I\<rparr>) w = LocalMtx w \<and>
   (wpc s w = WLocals \<longrightarrow>
      mem (step (BM_useMutexNoContention\<lparr>iterations := I\<rparr>) (Act (Worker w)) s) (Local w) = 0 \<and>
      owner (step (BM_useMutexNoContention\<lparr>iterations := I\<rparr>) (Act (Worker w)) s) (LocalMtx w)
        = None) \<and>
   (e \<noteq> Act (Worker w) \<longrightarrow>
      mem (step (BM_useMutexNoContention\<lparr>iterations := I\<rparr>) e s) (Local w) = mem s (Local w) \<and>
      owner (step (BM_useMutexNoContention\<lparr>iterations := I\<rparr>) e s) (LocalMtx w) =
        owner s (LocalMtx w)) \<and>
   BM_useMutexNoContention\<lparr>iterations := kNumIterationsMutex\<rparr> = BM_useMutexNoContention \<and>
   unat (of_nat kNumIterationsMutex :: 32 word) = 1000000 \<and>
   wpc (run BM_useMutexNoContention
          (concat (replicate k (one_trial BM_useMutexNoContention)) @ to_join BM_useMutexNoContention)
          (benchmark_init (Suc k) t0 hz)) w = Finished \<and>
   mem (run BM_useMutexNoContention
          (concat (replicate k (one_trial BM_useMutexNoContention)) @ to_join BM_useMutexNoContention)
          (benchmark_init (Suc k) t0 hz)) (Local w) = 1000000"
proof (intro conjI impI)
  let ?c = "BM_useMutexNoContention\<lparr>iterations := I\<rparr>"
  let ?s = "run ?c es (benchmark_init n t0 hz)"
  assume f: "wpc ?s w = Finished"
  have inv: "private_counters ?c ?s"
    by (intro private_counters_run private_counters_init private_noContention)
  then have own: "own_counter ?c ?s w" and sh: "shape ?c ?s w"
    by (cases w; simp add: private_counters_def sound_def)+
  have "declared ?c ?s w" using f by (simp add: declared_def BM_useMutexNoContention_def)
  then show "mem ?s (Local w) = of_nat I"
    using own sh f by (simp add: own_counter_def shape_def base_def BM_useMutexNoContention_def)
next
  assume ne: "e \<noteq> Act (Worker w)"
  let ?c = "BM_useMutexNoContention\<lparr>iterations := I\<rparr>"
  have "mem (step ?c e s) (Local w) = mem s (Local w) \<and>
      owner (step ?c e s) (LocalMtx w) = owner s (LocalMtx w)"
  proof (cases e)
    case Tick
    then show ?thesis by (simp add: step_def)
  next
    case (Act t)
    show ?thesis
    proof (cases t)
      case Controller
      then show ?thesis using Act
        by (cases "cpc s")
          (simp_all add: step_def controller_step_def BM_useMutexNoContention_def)
    next
      case (Worker v)
      then have "v \<noteq> w" using ne Act by auto
      then show ?thesis using Act Worker
        by (cases "wpc s v")
          (simp_all add: step_def worker_step_def BM_useMutexNoContention_def)
    qed
  qed
  then show "mem (step ?c e s) (Local w) = mem s (Local w)"
    "owner (step ?c e s) (LocalMtx w) = owner s (LocalMtx w)"
    by simp_all
next
  let ?c = "BM_useMutexNoContention"
  let ?es = "concat (replicate k (one_trial ?c)) @ to_join ?c"
  let ?s = "run ?c ?es (benchmark_init (Suc k) t0 hz)"
  have "sint (barrier_size ?c) \<le> 3"
    using small_barriers(4) [of kNumIterationsMutex] by (simp only: source_constants)
  from trial_reaches_join [OF this, of k "Suc k" t0 hz]
  have j: "cpc ?s = TakeEnd" by simp
  have "target ?c ThreadA \<noteq> target ?c ThreadB"
    by (simp add: BM_useMutexNoContention_def)
  then have inv: "private_counters ?c ?s"
    by (intro private_counters_run private_counters_init)
  then have "sound ?c ?s" by (simp add: private_counters_def)
  from sound_done(1) [OF this, of w] j show "wpc ?s w = Finished" by simp
  from own_counter_joined [OF inv, of w] j show "mem ?s (Local w) = 1000000"
    by (simp add: base_def BM_useMutexNoContention_def kNumIterationsMutex_def del: run.simps)
next
  show "BM_useMutexNoContention\<lparr>iterations := kNumIterationsMutex\<rparr> = BM_useMutexNoContention"
    by (rule source_constants)
  show "unat (of_nat kNumIterationsMutex :: 32 word) = 1000000"
    by (simp add: kNumIterationsMutex_def)
qed (simp_all add: step_def worker_step_def BM_useMutexNoContention_def)

theorem private_counters_exact_witness:
  "wpc (run (BM_useMutexNoContention\<lparr>iterations := 1\<rparr>) (sched_start @ locked_work)
      (benchmark_init 1 0 1)) ThreadA = Finished \<and>
   wpc (run (BM_useMutexNoContention\<lparr>iterations := 1\<rparr>) (sched_start @ locked_work)
      (benchmark_init 1 0 1)) ThreadB = Finished \<and>
   mem (run (BM_useMutexNoContention\<lparr>iterations := 1\<rparr>) (sched_start @ locked_work)
      (benchmark_init 1 0 1)) (Local ThreadA) = 1 \<and>
   mem (run (BM_useMutexNoContention\<lparr>iterations := 1\<rparr>) (sched_start @ locked_work)
      (benchmark_init 1 0 1)) (Local ThreadB) = 1 \<and>
   mem (step (BM_useMutexNoContention\<lparr>iterations := 1\<rparr>) (Act (Worker ThreadB))
      (run (BM_useMutexNoContention\<lparr>iterations := 1\<rparr>) (sched_start @ [WA, WA, WA, WA, WA, WB, WB, WB, WB, WB])
         (benchmark_init 1 0 1))) (Local ThreadA) = 0 \<and>
   wpc (run (BM_useMutexNoContention\<lparr>iterations := 1\<rparr>)
      (sched_start @ locked_work @ sched_join @ sched_report @ sched_start @ [WA])
      (benchmark_init 2 0 1)) ThreadA = WLocals \<and>
   mem (run (BM_useMutexNoContention\<lparr>iterations := 1\<rparr>)
      (sched_start @ locked_work @ sched_join @ sched_report @ sched_start @ [WA])
      (benchmark_init 2 0 1)) (Local ThreadA) = 1 \<and>
   mem (step (BM_useMutexNoContention\<lparr>iterations := 1\<rparr>) (Act (Worker ThreadA))
      (run (BM_useMutexNoContention\<lparr>iterations := 1\<rparr>)
        (sched_start @ locked_work @ sched_join @ sched_report @ sched_start @ [WA])
        (benchmark_init 2 0 1))) (Local ThreadA) = 0"
proof -
  have f: "wpc (run (BM_useMutexNoContention\<lparr>iterations := 1\<rparr>) (sched_start @ locked_work)
      (benchmark_init 1 0 1)) ThreadA = Finished"
    "wpc (run (BM_useMutexNoContention\<lparr>iterations := 1\<rparr>) (sched_start @ locked_work)
      (benchmark_init 1 0 1)) ThreadB = Finished"
    by (simp_all add: sched_defs step_defs BM_useMutexNoContention_def)
  have g: "mem (run (BM_useMutexNoContention\<lparr>iterations := 1\<rparr>)
         (sched_start @ [WA, WA, WA, WA, WA, WB, WB, WB, WB, WB])
         (benchmark_init 1 0 1)) (Local ThreadA) = 0"
    by (simp add: sched_defs step_defs BM_useMutexNoContention_def)
  have h: "Act (Worker ThreadB) \<noteq> Act (Worker ThreadA)" by simp
  have l: "wpc (run (BM_useMutexNoContention\<lparr>iterations := 1\<rparr>)
      (sched_start @ locked_work @ sched_join @ sched_report @ sched_start @ [WA])
      (benchmark_init 2 0 1)) ThreadA = WLocals"
    "mem (run (BM_useMutexNoContention\<lparr>iterations := 1\<rparr>)
      (sched_start @ locked_work @ sched_join @ sched_report @ sched_start @ [WA])
      (benchmark_init 2 0 1)) (Local ThreadA) = 1"
    by (simp_all add: sched_defs step_defs BM_useMutexNoContention_def)
  show ?thesis
    using f g h l
      private_counters_exact [of 1 "[]" 1 0 1 ThreadA
        "run (BM_useMutexNoContention\<lparr>iterations := 1\<rparr>)
           (sched_start @ locked_work @ sched_join @ sched_report @ sched_start @ [WA])
           (benchmark_init 2 0 1)"
        "Act (Worker ThreadA)"]
      private_counters_exact [of 1 "sched_start @ locked_work" 1 0 1 ThreadA]
      private_counters_exact [of 1 "sched_start @ locked_work" 1 0 1 ThreadB]
      private_counters_exact [of 1 "[]" 1 0 1 ThreadA
        "run (BM_useMutexNoContention\<lparr>iterations := 1\<rparr>)
           (sched_start @ [WA, WA, WA, WA, WA, WB, WB, WB, WB, WB]) (benchmark_init 1 0 1)"
        "Act (Worker ThreadB)"]
    by (simp del: run.simps)
qed

lemma timing_exited:
  assumes "timing n hz s" "cpc s = Exited"
  shows "length (samples s) = n"
  using assms by (simp add: timing_def)

lemma useMutex_exited:
  "cpc (run BM_useMutex (concat (replicate n (one_trial BM_useMutex)) @ [Ctl])
     (benchmark_init n t0 hz)) = Exited"
  "mem (run BM_useMutex (concat (replicate n (one_trial BM_useMutex)) @ [Ctl])
     (benchmark_init n t0 hz)) Counter = of_nat (n * 2000000)"
proof -
  let ?es = "concat (replicate n (one_trial BM_useMutex)) @ [Ctl]"
  let ?s = "run BM_useMutex ?es (benchmark_init n t0 hz)"
  have "sint (barrier_size BM_useMutex) \<le> 3"
    using small_barriers(3) [of kNumIterationsMutex] by (simp only: source_constants)
  from benchmark_completes [OF this, of n t0 hz]
  show x: "cpc ?s = Exited" .
  then have b: "between_trials (cpc ?s)" by simp
  have len: "length (samples ?s) = n"
    by (rule timing_exited [OF timing_run [OF timing_init] x])
  have "shares BM_useMutex" by (simp add: shares_def BM_useMutex_def)
  then have inv: "shared_inv BM_useMutex ?s"
    by (intro shared_inv_run shared_inv_init)
  then have snd: "sound BM_useMutex ?s" by (simp add: shared_inv_def)
  have "declared BM_useMutex ?s ThreadA" by (simp add: declared_def BM_useMutex_def)
  then have "mem ?s (target BM_useMutex ThreadA) =
      of_nat (2 * base BM_useMutex ?s + completed (wpc ?s ThreadA) (idx ?s ThreadA)
              + completed (wpc ?s ThreadB) (idx ?s ThreadB))"
    using inv by (simp add: shared_inv_def shared_counter_def)
  then show "mem ?s Counter = of_nat (n * 2000000)"
    using len sound_idle [OF snd b, of ThreadA] sound_idle [OF snd b, of ThreadB]
    by (simp add: base_def BM_useMutex_def kNumIterationsMutex_def algebra_simps del: run.simps)
qed

text \<open>
  Claim C10. All counters are zero when the benchmark function starts. In the shared-mutex
  and the false-sharing scenario no action of the controller writes a counter, so between
  trials the shared counter equals \<open>k * (2 * I)\<close> and each false-sharing counter \<open>k * I\<close>,
  modulo \<open>2 ^ 32\<close>, where \<open>k\<close> is the number of trials reported so far (\<open>n\<close> when the loop
  has exited). In the atomic scenario the controller's declaration at the start of a trial
  sets the counter to zero whatever it held, and the counter is zero when the first worker
  is spawned. The schedule that runs \<open>one_trial\<close> \<open>n\<close> times completes \<open>n\<close> trials of the
  source's one million iterations: the shared-mutex counter then holds \<open>n * 2000000\<close>.
\<close>

theorem counters_accumulate_across_trials:
  "(between_trials (cpc (run (BM_useMutex\<lparr>iterations := I\<rparr>) es (benchmark_init n t0 hz))) \<longrightarrow>
      mem (run (BM_useMutex\<lparr>iterations := I\<rparr>) es (benchmark_init n t0 hz)) Counter =
        of_nat (length (samples (run (BM_useMutex\<lparr>iterations := I\<rparr>) es
                  (benchmark_init n t0 hz))) * (2 * I)) \<and>
      unat (mem (run (BM_useMutex\<lparr>iterations := I\<rparr>) es (benchmark_init n t0 hz)) Counter) =
        (length (samples (run (BM_useMutex\<lparr>iterations := I\<rparr>) es
                  (benchmark_init n t0 hz))) * (2 * I)) mod 2 ^ 32) \<and>
   (cpc (run (BM_useMutex\<lparr>iterations := I\<rparr>) es (benchmark_init n t0 hz)) = Exited \<longrightarrow>
      mem (run (BM_useMutex\<lparr>iterations := I\<rparr>) es (benchmark_init n t0 hz)) Counter =
        of_nat (n * (2 * I))) \<and>
   (between_trials (cpc (run (BM_falseSharing\<lparr>iterations := I\<rparr>) es' (benchmark_init n t0 hz)))
      \<longrightarrow>
      mem (run (BM_falseSharing\<lparr>iterations := I\<rparr>) es' (benchmark_init n t0 hz)) CounterA =
        of_nat (length (samples (run (BM_falseSharing\<lparr>iterations := I\<rparr>) es'
                  (benchmark_init n t0 hz))) * I) \<and>
      mem (run (BM_falseSharing\<lparr>iterations := I\<rparr>) es' (benchmark_init n t0 hz)) CounterB =
        of_nat (length (samples (run (BM_falseSharing\<lparr>iterations := I\<rparr>) es'
                  (benchmark_init n t0 hz))) * I)) \<and>
   (cpc (run (BM_useAtomic\<lparr>iterations := I\<rparr>) es'' (benchmark_init n t0 hz)) = SpawnA \<longrightarrow>
      mem (run (BM_useAtomic\<lparr>iterations := I\<rparr>) es'' (benchmark_init n t0 hz)) Counter = 0) \<and>
   (cpc s = TrialLocals \<longrightarrow>
      mem (step (BM_useAtomic\<lparr>iterations := I\<rparr>) (Act Controller) s) Counter = 0) \<and>
   mem (benchmark_init n t0 hz) x = 0 \<and>
   mem (step (BM_useMutex\<lparr>iterations := I\<rparr>) (Act Controller) s) = mem s \<and>
   mem (step (BM_falseSharing\<lparr>iterations := I\<rparr>) (Act Controller) s) = mem s \<and>
   cpc (run BM_useMutex (concat (replicate n (one_trial BM_useMutex)) @ [Ctl])
     (benchmark_init n t0 hz)) = Exited \<and>
   mem (run BM_useMutex (concat (replicate n (one_trial BM_useMutex)) @ [Ctl])
     (benchmark_init n t0 hz)) Counter = of_nat (n * 2000000)"
proof (intro conjI impI)
  let ?m = "BM_useMutex\<lparr>iterations := I\<rparr>"
  let ?s = "run ?m es (benchmark_init n t0 hz)"
  have inv: "shared_inv ?m ?s"
    by (intro shared_inv_run shared_inv_init shares_useMutex)
  then have snd: "sound ?m ?s" by (simp add: shared_inv_def)
  have "declared ?m ?s ThreadA" by (simp add: declared_def BM_useMutex_def)
  then have eq: "mem ?s (target ?m ThreadA) =
      of_nat (2 * base ?m ?s + completed (wpc ?s ThreadA) (idx ?s ThreadA)
              + completed (wpc ?s ThreadB) (idx ?s ThreadB))"
    using inv by (simp add: shared_inv_def shared_counter_def)
  {
    assume b: "between_trials (cpc ?s)"
    show v: "mem ?s Counter = of_nat (length (samples ?s) * (2 * I))"
      using eq sound_idle [OF snd b, of ThreadA] sound_idle [OF snd b, of ThreadB]
      by (simp add: base_def BM_useMutex_def algebra_simps)
    show "unat (mem ?s Counter) = (length (samples ?s) * (2 * I)) mod 2 ^ 32"
      unfolding v unat_of_nat by simp
  }
  {
    assume x: "cpc ?s = Exited"
    then have b: "between_trials (cpc ?s)" by simp
    have "length (samples ?s) = n"
      by (rule timing_exited [OF timing_run [OF timing_init] x])
    then show "mem ?s Counter = of_nat (n * (2 * I))"
      using eq sound_idle [OF snd b, of ThreadA] sound_idle [OF snd b, of ThreadB]
      by (simp add: base_def BM_useMutex_def algebra_simps)
  }
next
  let ?f = "BM_falseSharing\<lparr>iterations := I\<rparr>"
  let ?s = "run ?f es' (benchmark_init n t0 hz)"
  assume b: "between_trials (cpc ?s)"
  have inv: "private_counters ?f ?s"
    by (intro private_counters_run private_counters_init private_falseSharing)
  then have snd: "sound ?f ?s" and own: "own_counter ?f ?s ThreadA" "own_counter ?f ?s ThreadB"
    by (simp_all add: private_counters_def)
  show "mem ?s CounterA = of_nat (length (samples ?s) * I)"
    using own(1) sound_idle [OF snd b, of ThreadA]
    by (simp add: own_counter_def declared_def base_def BM_falseSharing_def)
  show "mem ?s CounterB = of_nat (length (samples ?s) * I)"
    using own(2) sound_idle [OF snd b, of ThreadB]
    by (simp add: own_counter_def declared_def base_def BM_falseSharing_def)
next
  let ?a = "BM_useAtomic\<lparr>iterations := I\<rparr>"
  let ?s = "run ?a es'' (benchmark_init n t0 hz)"
  assume c: "cpc ?s = SpawnA"
  have inv: "shared_inv ?a ?s"
    by (intro shared_inv_run shared_inv_init shares_useAtomic)
  then have "life ?s" by (simp add: shared_inv_def sound_def)
  then have "wpc ?s ThreadA = Unspawned" "wpc ?s ThreadB = Unspawned"
    using c by (simp_all add: life_def)
  moreover have "declared ?a ?s ThreadA" using c by (simp add: declared_def BM_useAtomic_def)
  ultimately show "mem ?s Counter = 0"
    using inv by (simp add: shared_inv_def shared_counter_def base_def BM_useAtomic_def)
next
  assume "cpc s = TrialLocals"
  then show "mem (step (BM_useAtomic\<lparr>iterations := I\<rparr>) (Act Controller) s) Counter = 0"
    by (simp add: step_def controller_step_def BM_useAtomic_def)
next
  show "mem (benchmark_init n t0 hz) x = 0" by (simp add: benchmark_init_def)
  show "mem (step (BM_useMutex\<lparr>iterations := I\<rparr>) (Act Controller) s) = mem s"
    by (cases "cpc s") (simp_all add: step_def controller_step_def BM_useMutex_def)
  show "mem (step (BM_falseSharing\<lparr>iterations := I\<rparr>) (Act Controller) s) = mem s"
    by (cases "cpc s") (simp_all add: step_def controller_step_def BM_falseSharing_def)
  show "cpc (run BM_useMutex (concat (replicate n (one_trial BM_useMutex)) @ [Ctl])
     (benchmark_init n t0 hz)) = Exited"
    "mem (run BM_useMutex (concat (replicate n (one_trial BM_useMutex)) @ [Ctl])
     (benchmark_init n t0 hz)) Counter = of_nat (n * 2000000)"
    by (rule useMutex_exited)+
qed

theorem counters_accumulate_across_trials_witness:
  "cpc (run (BM_useMutex\<lparr>iterations := 1\<rparr>)
      (sched_start @ locked_work @ sched_join @ sched_report @
       sched_start @ locked_work @ sched_join @ sched_report @ [Ctl])
      (benchmark_init 2 0 1)) = Exited \<and>
   mem (run (BM_useMutex\<lparr>iterations := 1\<rparr>)
      (sched_start @ locked_work @ sched_join @ sched_report @
       sched_start @ locked_work @ sched_join @ sched_report @ [Ctl])
      (benchmark_init 2 0 1)) Counter = 4 \<and>
   cpc (run (BM_falseSharing\<lparr>iterations := 1\<rparr>)
      (sched_start @ plain_work @ sched_join @ sched_report @
       sched_start @ plain_work @ sched_join @ sched_report)
      (benchmark_init 3 0 1)) = LoopHead \<and>
   mem (run (BM_falseSharing\<lparr>iterations := 1\<rparr>)
      (sched_start @ plain_work @ sched_join @ sched_report @
       sched_start @ plain_work @ sched_join @ sched_report)
      (benchmark_init 3 0 1)) CounterA = 2 \<and>
   mem (run (BM_useAtomic\<lparr>iterations := 1\<rparr>)
      (sched_start @ atomic_work @ sched_join @ sched_report)
      (benchmark_init 2 0 1)) Counter = 2 \<and>
   cpc (run (BM_useAtomic\<lparr>iterations := 1\<rparr>)
      (sched_start @ atomic_work @ sched_join @ sched_report @ [Ctl, Ctl])
      (benchmark_init 2 0 1)) = SpawnA \<and>
   mem (run (BM_useAtomic\<lparr>iterations := 1\<rparr>)
      (sched_start @ atomic_work @ sched_join @ sched_report @ [Ctl, Ctl])
      (benchmark_init 2 0 1)) Counter = 0 \<and>
   cpc (run (BM_useAtomic\<lparr>iterations := 1\<rparr>)
      (sched_start @ atomic_work @ sched_join @ sched_report @ [Ctl])
      (benchmark_init 2 0 1)) = TrialLocals \<and>
   mem (step (BM_useAtomic\<lparr>iterations := 1\<rparr>) Ctl
      (run (BM_useAtomic\<lparr>iterations := 1\<rparr>)
        (sched_start @ atomic_work @ sched_join @ sched_report @ [Ctl])
        (benchmark_init 2 0 1))) Counter = 0"
proof -
  have m: "cpc (run (BM_useMutex\<lparr>iterations := 1\<rparr>)
      (sched_start @ locked_work @ sched_join @ sched_report @
       sched_start @ locked_work @ sched_join @ sched_report @ [Ctl])
      (benchmark_init 2 0 1)) = Exited"
    by (simp add: sched_defs step_defs BM_useMutex_def)
  have f: "cpc (run (BM_falseSharing\<lparr>iterations := 1\<rparr>)
      (sched_start @ plain_work @ sched_join @ sched_report @
       sched_start @ plain_work @ sched_join @ sched_report)
      (benchmark_init 3 0 1)) = LoopHead"
    "length (samples (run (BM_falseSharing\<lparr>iterations := 1\<rparr>)
      (sched_start @ plain_work @ sched_join @ sched_report @
       sched_start @ plain_work @ sched_join @ sched_report)
      (benchmark_init 3 0 1))) = 2"
    by (simp_all add: sched_defs step_defs BM_falseSharing_def)
  have a: "cpc (run (BM_useAtomic\<lparr>iterations := 1\<rparr>)
      (sched_start @ atomic_work @ sched_join @ sched_report @ [Ctl, Ctl])
      (benchmark_init 2 0 1)) = SpawnA"
    "mem (run (BM_useAtomic\<lparr>iterations := 1\<rparr>)
      (sched_start @ atomic_work @ sched_join @ sched_report)
      (benchmark_init 2 0 1)) Counter = 2"
    by (simp_all add: sched_defs step_defs BM_useAtomic_def)
  have t: "cpc (run (BM_useAtomic\<lparr>iterations := 1\<rparr>)
      (sched_start @ atomic_work @ sched_join @ sched_report @ [Ctl])
      (benchmark_init 2 0 1)) = TrialLocals"
    by (simp add: sched_defs step_defs BM_useAtomic_def)
  show ?thesis
    using m f a t
      counters_accumulate_across_trials [where I = 1 and s =
        "run (BM_useAtomic\<lparr>iterations := 1\<rparr>)
          (sched_start @ atomic_work @ sched_join @ sched_report @ [Ctl]) (benchmark_init 2 0 1)"]
      counters_accumulate_across_trials [of 1
        "sched_start @ locked_work @ sched_join @ sched_report @
         sched_start @ locked_work @ sched_join @ sched_report @ [Ctl]" 2 0 1]
      counters_accumulate_across_trials [of 1 _ 3 0 1
        "sched_start @ plain_work @ sched_join @ sched_report @
         sched_start @ plain_work @ sched_join @ sched_report"]
      counters_accumulate_across_trials [of 1 _ 2 0 1 _
        "sched_start @ atomic_work @ sched_join @ sched_report @ [Ctl, Ctl]"]
    by (simp del: run.simps)
qed

subsection \<open>Timing and reporting\<close>

lemma samples_step_mono: "length (samples s) \<le> length (samples (step sc e s))"
proof (cases e)
  case Tick
  then show ?thesis by (simp add: step_def)
next
  case (Act t)
  show ?thesis
  proof (cases t)
    case Controller
    then show ?thesis using Act
      by (cases "cpc s") (simp_all add: step_def controller_step_def)
  next
    case (Worker w)
    then show ?thesis using Act
      by (cases "wpc s w") (simp_all add: step_def worker_step_def)
  qed
qed

lemma samples_run_mono: "length (samples s) \<le> length (samples (run sc es s))"
proof (induction es arbitrary: s)
  case Nil
  then show ?case by simp
next
  case (Cons e es)
  show ?case using samples_step_mono [of s sc e] Cons [of "step sc e s"] by simp
qed

lemma start_kept_step:
  assumes "has_start (cpc s)" "length (samples (step sc e s)) = length (samples s)"
  shows "has_start (cpc (step sc e s)) \<and> t_start (step sc e s) = t_start s"
proof (cases e)
  case Tick
  then show ?thesis using assms by (simp add: step_def)
next
  case (Act t)
  show ?thesis
  proof (cases t)
    case Controller
    then show ?thesis using Act assms
      by (cases "cpc s") (simp_all add: step_def controller_step_def)
  next
    case (Worker w)
    then show ?thesis using Act assms
      by (cases "wpc s w") (simp_all add: step_def worker_step_def)
  qed
qed

lemma start_kept_run:
  "has_start (cpc s) \<Longrightarrow> length (samples (run sc es s)) = length (samples s) \<Longrightarrow>
   t_start (run sc es s) = t_start s"
proof (induction es arbitrary: s)
  case Nil
  then show ?case by simp
next
  case (Cons e es)
  have "length (samples (step sc e s)) \<le> length (samples (run sc es (step sc e s)))"
    by (rule samples_run_mono)
  then have same: "length (samples (step sc e s)) = length (samples s)"
    using Cons.prems(2) samples_step_mono [of s sc e] by simp
  note k = start_kept_step [OF Cons.prems(1) same]
  have "t_start (run sc es (step sc e s)) = t_start (step sc e s)"
    using Cons.IH [of "step sc e s"] k Cons.prems(2) same by simp
  then show ?case using k by simp
qed

lemma others_step:
  assumes "e \<noteq> Act Controller"
  shows "cpc (step sc e s) = cpc s" "t_start (step sc e s) = t_start s"
    "t_end (step sc e s) = t_end s" "samples (step sc e s) = samples s"
    "ticks_per_second (step sc e s) = ticks_per_second s"
proof -
  have "cpc (step sc e s) = cpc s \<and> t_start (step sc e s) = t_start s \<and>
      t_end (step sc e s) = t_end s \<and> samples (step sc e s) = samples s \<and>
      ticks_per_second (step sc e s) = ticks_per_second s"
  proof (cases e)
    case Tick
    then show ?thesis by (simp add: step_def)
  next
    case (Act t)
    then obtain w where "t = Worker w" using assms by (cases t) auto
    then show ?thesis using Act
      by (cases "wpc s w") (simp_all add: step_def worker_step_def)
  qed
  then show "cpc (step sc e s) = cpc s" "t_start (step sc e s) = t_start s"
    "t_end (step sc e s) = t_end s" "samples (step sc e s) = samples s"
    "ticks_per_second (step sc e s) = ticks_per_second s"
    by simp_all
qed

lemma others_run:
  "Act Controller \<notin> set es \<Longrightarrow>
   cpc (run sc es s) = cpc s \<and> t_start (run sc es s) = t_start s \<and>
   t_end (run sc es s) = t_end s \<and> samples (run sc es s) = samples s \<and>
   ticks_per_second (run sc es s) = ticks_per_second s"
  by (induction es arbitrary: s) (auto simp: others_step)

lemma sample_is_clock_difference:
  assumes s: "cpc s = TakeStart"
    and s': "s' = run sc (Act Controller # es) s" "cpc s' = TakeEnd"
      "length (samples s') = length (samples s)"
    and es': "Act Controller \<notin> set es'"
  shows "samples (run sc (Act Controller # es' @ [Act Controller]) s') =
         samples s' @ [elapsed_seconds (ticks_per_second s') (clock s' - clock s)]"
proof -
  let ?s1 = "step sc (Act Controller) s"
  have s1: "cpc ?s1 = JoinA" "t_start ?s1 = clock s" "samples ?s1 = samples s"
    using s by (simp_all add: step_def controller_step_def)
  have "t_start (run sc es ?s1) = t_start ?s1"
    by (rule start_kept_run) (use s1 s' in simp_all)
  then have st: "t_start s' = clock s" using s1 s' by simp
  let ?s2 = "step sc (Act Controller) s'"
  have s2: "cpc ?s2 = Report" "t_start ?s2 = clock s" "t_end ?s2 = clock s'"
    "samples ?s2 = samples s'" "ticks_per_second ?s2 = ticks_per_second s'"
    using s'(2) st by (simp_all add: step_def controller_step_def)
  let ?s3 = "run sc es' ?s2"
  have s3: "cpc ?s3 = Report" "t_start ?s3 = clock s" "t_end ?s3 = clock s'"
    "samples ?s3 = samples s'" "ticks_per_second ?s3 = ticks_per_second s'"
    using others_run [OF es', of sc ?s2] s2 by simp_all
  have "samples (step sc (Act Controller) ?s3) =
      samples s' @ [elapsed_seconds (ticks_per_second s') (clock s' - clock s)]"
    using s3 by (simp add: step_def controller_step_def)
  then show ?thesis by (simp add: run_append)
qed

text \<open>
  Timing and reporting in every scenario, whatever the size of its barrier. These parts hold
  of all five benchmark functions; whether the workers have arrived when the start time is
  read depends on the barrier's size and is not among them. (1) The number of samples
  reported so far, the iterations the framework still owes and the trial in progress, if
  any, add up to the number of trials, so each completed trial has reported exactly one
  sample, and \<open>n\<close> samples when the loop has exited; (2) both thread objects were constructed
  before the controller passes the barrier (program order only); (3) the controller leaves
  its polling loop to the action that reads the start time, and leaves the second join to
  the action that reads the end time; (4) the sample a trial reports is the clock at the
  controller's action after the joins minus the clock at its action after
  \<^verbatim>\<open>arriveAndWait()\<close> returned, in seconds; (5) for a barrier of size at most 3 the schedule
  that runs \<open>one_trial\<close> \<open>n\<close> times lets the benchmark function return, with \<open>n\<close> samples
  reported.
\<close>

theorem trial_reports_elapsed_time:
  "length (samples (run sc es (benchmark_init n t0 hz))) +
     iters_left (run sc es (benchmark_init n t0 hz)) +
     of_bool (\<not> between_trials (cpc (run sc es (benchmark_init n t0 hz)))) = n \<and>
   (cpc (run sc es (benchmark_init n t0 hz)) = Exited \<longrightarrow>
      length (samples (run sc es (benchmark_init n t0 hz))) = n) \<and>
   (c_passed (cpc (run sc es (benchmark_init n t0 hz))) \<longrightarrow>
      wpc (run sc es (benchmark_init n t0 hz)) w \<noteq> Unspawned) \<and>
   (cpc s = CPoll \<longrightarrow>
      step sc (Act Controller) s = (if must_wait (barrier s) then s else s\<lparr>cpc := TakeStart\<rparr>)) \<and>
   (cpc s = JoinA \<longrightarrow>
      step sc (Act Controller) s = (if wpc s ThreadA = Finished then s\<lparr>cpc := JoinB\<rparr> else s)) \<and>
   (cpc s = JoinB \<longrightarrow>
      step sc (Act Controller) s = (if wpc s ThreadB = Finished then s\<lparr>cpc := TakeEnd\<rparr> else s)) \<and>
   (cpc s = TakeStart \<and> cpc (run sc (Act Controller # es1) s) = TakeEnd \<and>
    length (samples (run sc (Act Controller # es1) s)) = length (samples s) \<and>
    Act Controller \<notin> set es2 \<longrightarrow>
      samples (run sc (Act Controller # es2 @ [Act Controller]) (run sc (Act Controller # es1) s)) =
        samples (run sc (Act Controller # es1) s) @
        [elapsed_seconds (ticks_per_second (run sc (Act Controller # es1) s))
           (clock (run sc (Act Controller # es1) s) - clock s)]) \<and>
   elapsed_seconds hz d = real_of_int d / real hz \<and>
   (sint (barrier_size sc) \<le> 3 \<longrightarrow>
      cpc (run sc (concat (replicate n (one_trial sc)) @ [Ctl]) (benchmark_init n t0 hz)) = Exited \<and>
      length (samples (run sc (concat (replicate n (one_trial sc)) @ [Ctl])
        (benchmark_init n t0 hz))) = n)"
proof (intro conjI impI)
  let ?s = "run sc es (benchmark_init n t0 hz)"
  have t: "timing n hz ?s" by (rule timing_run [OF timing_init])
  then show "length (samples ?s) + iters_left ?s + of_bool (\<not> between_trials (cpc ?s)) = n"
    by (simp add: timing_def)
  show "length (samples ?s) = n" if "cpc ?s = Exited" using t that by (simp add: timing_def)
  have "life ?s" using sound_run [OF sound_init, of sc es n t0 hz] by (simp add: sound_def)
  then show "wpc ?s w \<noteq> Unspawned" if "c_passed (cpc ?s)"
    using that by (cases w; cases "cpc ?s") (simp_all add: life_def)
next
  assume a: "cpc s = TakeStart \<and> cpc (run sc (Act Controller # es1) s) = TakeEnd \<and>
    length (samples (run sc (Act Controller # es1) s)) = length (samples s) \<and>
    Act Controller \<notin> set es2"
  then show "samples (run sc (Act Controller # es2 @ [Act Controller])
        (run sc (Act Controller # es1) s)) =
      samples (run sc (Act Controller # es1) s) @
      [elapsed_seconds (ticks_per_second (run sc (Act Controller # es1) s))
         (clock (run sc (Act Controller # es1) s) - clock s)]"
    by (intro sample_is_clock_difference [of s _ sc es1 es2]) simp_all
next
  assume "sint (barrier_size sc) \<le> 3"
  from benchmark_completes [OF this, of n t0 hz]
  show x: "cpc (run sc (concat (replicate n (one_trial sc)) @ [Ctl]) (benchmark_init n t0 hz)) =
      Exited" .
  show "length (samples (run sc (concat (replicate n (one_trial sc)) @ [Ctl])
      (benchmark_init n t0 hz))) = n"
    by (rule timing_exited [OF timing_run [OF timing_init] x])
qed (simp_all add: step_def controller_step_def elapsed_seconds_def)

theorem trial_reports_elapsed_time_witness:
  "cpc (run (BM_useAtomic\<lparr>iterations := 1\<rparr>) [Ctl, Ctl, Ctl, Ctl, Ctl, WA, WB, Ctl, Tick]
      (benchmark_init 1 5 10)) = TakeStart \<and>
   cpc (run (BM_useAtomic\<lparr>iterations := 1\<rparr>) (Ctl # Tick # atomic_work @ sched_join)
      (run (BM_useAtomic\<lparr>iterations := 1\<rparr>) [Ctl, Ctl, Ctl, Ctl, Ctl, WA, WB, Ctl, Tick]
        (benchmark_init 1 5 10))) = TakeEnd \<and>
   samples (run (BM_useAtomic\<lparr>iterations := 1\<rparr>) (Ctl # [Tick, Tick, Tick] @ [Ctl])
      (run (BM_useAtomic\<lparr>iterations := 1\<rparr>) (Ctl # Tick # atomic_work @ sched_join)
        (run (BM_useAtomic\<lparr>iterations := 1\<rparr>) [Ctl, Ctl, Ctl, Ctl, Ctl, WA, WB, Ctl, Tick]
          (benchmark_init 1 5 10)))) = [3 / 10] \<and>
   cpc (run (BM_useAtomic\<lparr>iterations := 1\<rparr>)
      (sched_start @ atomic_work @ sched_join @ sched_report @ [Ctl])
      (benchmark_init 1 5 10)) = Exited \<and>
   length (samples (run (BM_useAtomic\<lparr>iterations := 1\<rparr>)
      (sched_start @ atomic_work @ sched_join @ sched_report @ [Ctl])
      (benchmark_init 1 5 10))) = 1 \<and>
   cpc (run (BM_useAtomic\<lparr>iterations := 1\<rparr>)
      (concat (replicate 1 (one_trial (BM_useAtomic\<lparr>iterations := 1\<rparr>))) @ [Ctl])
      (benchmark_init 1 5 10)) = Exited \<and>
   wpc (run (BM_useAtomic\<lparr>iterations := 1\<rparr>) [Ctl, Ctl, Ctl, Ctl, Ctl, WA, WB, Ctl, Tick]
      (benchmark_init 1 5 10)) ThreadB \<noteq> Unspawned \<and>
   cpc (run (BM_useAtomic\<lparr>iterations := 1\<rparr>) [Ctl, Ctl, Ctl, Ctl, Ctl] (benchmark_init 1 5 10)) =
     CPoll \<and>
   step (BM_useAtomic\<lparr>iterations := 1\<rparr>) Ctl
     (run (BM_useAtomic\<lparr>iterations := 1\<rparr>) [Ctl, Ctl, Ctl, Ctl, Ctl] (benchmark_init 1 5 10)) =
   run (BM_useAtomic\<lparr>iterations := 1\<rparr>) [Ctl, Ctl, Ctl, Ctl, Ctl] (benchmark_init 1 5 10)"
proof -
  let ?sc = "BM_useAtomic\<lparr>iterations := 1\<rparr>"
  let ?s = "run ?sc [Ctl, Ctl, Ctl, Ctl, Ctl, WA, WB, Ctl, Tick] (benchmark_init 1 5 10)"
  let ?es1 = "Tick # atomic_work @ sched_join"
  have a: "cpc ?s = TakeStart" "clock ?s = 6" "samples ?s = []"
    by (simp_all add: step_defs BM_useAtomic_def)
  have b: "cpc (run ?sc (Ctl # ?es1) ?s) = TakeEnd" "clock (run ?sc (Ctl # ?es1) ?s) = 9"
    "samples (run ?sc (Ctl # ?es1) ?s) = []" "ticks_per_second (run ?sc (Ctl # ?es1) ?s) = 10"
    by (simp_all add: sched_defs step_defs BM_useAtomic_def)
  have c: "Ctl \<notin> set [Tick, Tick, Tick]" by simp
  have x: "cpc (run ?sc (sched_start @ atomic_work @ sched_join @ sched_report @ [Ctl])
      (benchmark_init 1 5 10)) = Exited"
    by (simp add: sched_defs step_defs BM_useAtomic_def)
  have r: "samples (run ?sc (Ctl # [Tick, Tick, Tick] @ [Ctl]) (run ?sc (Ctl # ?es1) ?s)) = [3 / 10]"
    using a b c trial_reports_elapsed_time [where sc = ?sc and s = ?s and ?es1.0 = ?es1
        and ?es2.0 = "[Tick, Tick, Tick]" and hz = 10 and d = 3]
    by (simp del: run.simps)
  have p: "cpc (run ?sc [Ctl, Ctl, Ctl, Ctl, Ctl] (benchmark_init 1 5 10)) = CPoll"
    "must_wait (barrier (run ?sc [Ctl, Ctl, Ctl, Ctl, Ctl] (benchmark_init 1 5 10)))"
    by (simp_all add: step_defs BM_useAtomic_def)
  have q: "c_passed TakeStart" by simp
  show ?thesis
    using a(1) b(1) r x p q small_barriers(5) [of 1]
      trial_reports_elapsed_time [where sc = ?sc and n = 1 and ?t0.0 = 5 and hz = 10
        and es = "[Ctl, Ctl, Ctl, Ctl, Ctl, WA, WB, Ctl, Tick]" and w = ThreadB
        and s = "run ?sc [Ctl, Ctl, Ctl, Ctl, Ctl] (benchmark_init 1 5 10)"]
      trial_reports_elapsed_time [where sc = ?sc and n = 1 and ?t0.0 = 5
        and hz = 10 and es = "sched_start @ atomic_work @ sched_join @ sched_report @ [Ctl]"]
    by (simp del: run.simps)
qed

subsection \<open>Barrier sizes and memory layout\<close>

lemma full_barrier_holds:
  assumes "barrier_size sc = 3"
    and "anyone_passed (run sc es (benchmark_init n t0 hz))"
  shows "c_arrived (cpc (run sc es (benchmark_init n t0 hz))) \<and>
         w_arrived (wpc (run sc es (benchmark_init n t0 hz)) ThreadA) \<and>
         w_arrived (wpc (run sc es (benchmark_init n t0 hz)) ThreadB)"
proof -
  let ?s = "run sc es (benchmark_init n t0 hz)"
  have snd: "sound sc ?s" by (rule sound_run [OF sound_init])
  then have b: "bar sc ?s" and l: "life ?s" by (simp_all add: sound_def)
  have hb: "has_barrier (cpc ?s)"
    using assms(2) l spawned_has_barrier [of ThreadA "cpc ?s"] spawned_has_barrier [of ThreadB "cpc ?s"]
    by (cases "cpc ?s") (auto simp: anyone_passed_def life_def)
  then have "3 \<le> int (arrivals ?s)" using b assms by (simp add: bar_def)
  then show ?thesis
    by (cases "c_arrived (cpc ?s)"; cases "w_arrived (wpc ?s ThreadA)";
        cases "w_arrived (wpc ?s ThreadB)") (simp_all add: arrivals_def)
qed

text \<open>
  Claim C1, evaluated on the code. Three scenarios construct \<^verbatim>\<open>Barrier barrier(3)\<close>;
  \<^verbatim>\<open>BM_useMutexNoContention\<close> and \<^verbatim>\<open>BM_useAtomic\<close> construct \<^verbatim>\<open>Barrier barrier(2)\<close> for
  the same three arriving threads. In both, after worker \<open>a\<close> and the controller have
  arrived the controller leaves the barrier and reads its start time while worker \<open>b\<close> has
  not yet executed its \<^verbatim>\<open>arriveAndWait()\<close>.
\<close>

theorem undersized_barrier_starts_early:
  "barrier_size BM_falseSharing = 3 \<and> barrier_size BM_noFalseSharing = 3 \<and>
   barrier_size BM_useMutex = 3 \<and> barrier_size BM_useMutexNoContention = 2 \<and>
   barrier_size BM_useAtomic = 2 \<and>
   cpc (run BM_useAtomic early_start (benchmark_init 1 0 1)) = JoinA \<and>
   t_start (run BM_useAtomic early_start (benchmark_init 1 0 1)) = 1 \<and>
   wpc (run BM_useAtomic early_start (benchmark_init 1 0 1)) ThreadB = WArrive \<and>
   numThreadsArrived (barrier (run BM_useAtomic early_start (benchmark_init 1 0 1))) = 2 \<and>
   cpc (run BM_useMutexNoContention early_start (benchmark_init 1 0 1)) = JoinA \<and>
   t_start (run BM_useMutexNoContention early_start (benchmark_init 1 0 1)) = 1 \<and>
   wpc (run BM_useMutexNoContention early_start (benchmark_init 1 0 1)) ThreadB = WArrive \<and>
   numThreadsArrived (barrier (run BM_useMutexNoContention early_start (benchmark_init 1 0 1))) = 2"
  by (simp add: early_start_def step_defs BM_falseSharing_def BM_noFalseSharing_def
      BM_useMutex_def BM_useMutexNoContention_def BM_useAtomic_def)

lemma step_ignores_alignment: "step (sc\<lparr>counter_align := al\<rparr>) e s = step sc e s"
proof (cases e)
  case Tick
  then show ?thesis by (simp add: step_def)
next
  case (Act t)
  show ?thesis
  proof (cases t)
    case Controller
    then show ?thesis using Act by (cases "cpc s") (simp_all add: step_def controller_step_def)
  next
    case (Worker w)
    then show ?thesis using Act by (cases "wpc s w") (simp_all add: step_def worker_step_def)
  qed
qed

lemma run_ignores_alignment: "run (sc\<lparr>counter_align := al\<rparr>) es s = run sc es s"
  by (induction es arbitrary: s) (simp_all add: step_ignores_alignment)

lemma aligned_lines_apart:
  fixes a b L i j :: nat
  assumes "128 dvd a" "128 dvd b" "a + 128 \<le> b" "L dvd 128" "i < 4"
  shows "(a + i) div L < (b + j) div L"
proof -
  obtain q where q: "128 = L * q" using assms(4) by (auto simp: dvd_def)
  then have L: "0 < L" by (cases "L = 0") auto
  have La: "L dvd a" using assms(1,4) by (rule dvd_trans [rotated])
  have "i < q * L" using assms(5) q by (simp add: mult.commute)
  then have "i div L < q" by (rule less_mult_imp_div_less)
  moreover have "(a + i) div L = a div L + i div L"
    using La by (rule div_plus_div_distrib_dvd_left)
  moreover have "(a + 128) div L = a div L + q"
  proof -
    have "(a + L * q) div L = a div L + (L * q) div L"
      using La by (rule div_plus_div_distrib_dvd_left)
    also have "(L * q) div L = q" using L by simp
    finally show ?thesis unfolding q [symmetric] .
  qed
  moreover have "(a + 128) div L \<le> (b + j) div L"
    using assms(3) by (intro div_le_mono) simp
  ultimately show ?thesis by linarith
qed

text \<open>
  Claim C8. The no-false-sharing scenario is the false-sharing scenario with the alignment
  of \<^verbatim>\<open>Counter\<close> set to 128: same barrier size, workers, unguarded increment loop and
  iteration count, and from every state every schedule leads both to the same state,
  reported samples included. With that alignment a \<^verbatim>\<open>Counter\<close> occupies 128 bytes, and
  wherever the two counters are placed, no byte of one \<^verbatim>\<open>val\<close> shares a cache line with a
  byte of the other, for every line size dividing 128. With the default alignment of 4 the
  two counters can lie in one line.
\<close>

theorem no_false_sharing_differs_in_layout_only:
  "BM_noFalseSharing = BM_falseSharing\<lparr>counter_align := 128\<rparr> \<and>
   run BM_noFalseSharing es s = run BM_falseSharing es s \<and>
   counter_align BM_noFalseSharing = 128 \<and>
   sizeof_Counter (counter_align BM_noFalseSharing) = 128 \<and>
   (placed BM_noFalseSharing a b \<and> L dvd 128 \<and> i < 4 \<and> j < 4 \<longrightarrow>
      cache_line L (a + i) \<noteq> cache_line L (b + j)) \<and>
   placed BM_falseSharing 0 4 \<and> cache_line 128 (0 + 3) = cache_line 128 (4 + 0)"
proof (intro conjI impI)
  show eq: "BM_noFalseSharing = BM_falseSharing\<lparr>counter_align := 128\<rparr>"
    by (simp add: BM_noFalseSharing_def BM_falseSharing_def)
  show "run BM_noFalseSharing es s = run BM_falseSharing es s"
    unfolding eq by (rule run_ignores_alignment)
  show "counter_align BM_noFalseSharing = 128" by (simp add: BM_noFalseSharing_def)
  show sz: "sizeof_Counter (counter_align BM_noFalseSharing) = 128"
    by (simp add: BM_noFalseSharing_def sizeof_Counter_def)
  show "placed BM_falseSharing 0 4"
    by (simp add: placed_def BM_falseSharing_def sizeof_Counter_def)
  show "cache_line 128 (0 + 3) = cache_line 128 (4 + 0)" by (simp add: cache_line_def)
  assume p: "placed BM_noFalseSharing a b \<and> L dvd 128 \<and> i < 4 \<and> j < 4"
  then have al: "128 dvd a" "128 dvd b" and apart: "a + 128 \<le> b \<or> b + 128 \<le> a"
    using sz by (simp_all add: placed_def BM_noFalseSharing_def)
  from apart show "cache_line L (a + i) \<noteq> cache_line L (b + j)"
  proof
    assume ab: "a + 128 \<le> b"
    show ?thesis using aligned_lines_apart [OF al ab, of L i j] p
      by (simp add: cache_line_def)
  next
    assume ba: "b + 128 \<le> a"
    show ?thesis using aligned_lines_apart [OF al(2,1) ba, of L j i] p
      by (simp add: cache_line_def)
  qed
qed

theorem no_false_sharing_differs_in_layout_only_witness:
  "placed BM_noFalseSharing 256 128 \<and> (64::nat) dvd 128 \<and>
   cache_line 64 (256 + 0) \<noteq> cache_line 64 (128 + 3) \<and>
   run BM_noFalseSharing [Ctl, Ctl, Ctl] (benchmark_init 1 0 1) =
   run BM_falseSharing [Ctl, Ctl, Ctl] (benchmark_init 1 0 1)"
proof -
  have p: "placed BM_noFalseSharing 256 128"
    by (simp add: placed_def BM_noFalseSharing_def sizeof_Counter_def)
  have d: "(64::nat) dvd 128" by simp
  show ?thesis
    using p d no_false_sharing_differs_in_layout_only [of "[Ctl, Ctl, Ctl]" "benchmark_init 1 0 1"
        256 128 64 0 3]
    by (simp del: run.simps)
qed

subsection \<open>What a barrier of size two lets into the sample\<close>

lemma ticks_run: "run sc (replicate k Tick) s = s\<lparr>clock := clock s + int k\<rparr>"
proof (induction k arbitrary: s)
  case 0
  then show ?case by simp
next
  case (Suc k)
  then show ?case by (simp add: step_def algebra_simps)
qed

lemma late_worker_run:
  assumes "barrier_size sc = 2"
  shows "cpc (run sc early_start (benchmark_init (Suc n) t0 hz)) = JoinA"
    and "t_start (run sc early_start (benchmark_init (Suc n) t0 hz)) = t0 + 1"
    and "wpc (run sc (early_start @ replicate 100 Tick) (benchmark_init (Suc n) t0 hz)) ThreadB
         = WArrive"
    and "clock (run sc (early_start @ replicate 100 Tick) (benchmark_init (Suc n) t0 hz))
         = t0 + 101"
    and "samples (run sc (late_worker sc) (benchmark_init (Suc n) t0 hz))
         = [elapsed_seconds hz 100]"
proof -
  define s1 where "s1 = run sc early_start (benchmark_init (Suc n) t0 hz)"
  define s2 where "s2 = run sc (replicate 100 Tick) s1"
  define s3 where "s3 = run sc [WB] s2"
  define s4 where "s4 = run sc (solo sc ThreadA) s3"
  define s5 where "s5 = run sc (solo sc ThreadB) s4"
  define s6 where "s6 = run sc [Ctl, Ctl, Ctl, Ctl] s5"
  have a: "cpc s1 = JoinA" "t_start s1 = t0 + 1" "clock s1 = t0 + 1" "wpc s1 ThreadA = WPoll"
    "wpc s1 ThreadB = WArrive" "barrier s1 = \<lparr>numThreadsArrived = 2, numTotalThreads = 2\<rparr>"
    "\<forall>m. owner s1 m = None" "samples s1 = []" "ticks_per_second s1 = hz"
    unfolding s1_def using assms
    by (simp_all add: early_start_def benchmark_init_def step_def controller_step_def
        worker_step_def new_Barrier_def arrive_def must_wait_def)
  have s2: "s2 = s1\<lparr>clock := clock s1 + 100\<rparr>"
    unfolding s2_def using ticks_run [of sc 100 s1] by simp
  have b: "cpc s2 = JoinA" "t_start s2 = t0 + 1" "clock s2 = t0 + 101" "wpc s2 ThreadA = WPoll"
    "wpc s2 ThreadB = WArrive" "barrier s2 = \<lparr>numThreadsArrived = 2, numTotalThreads = 2\<rparr>"
    "\<forall>m. owner s2 m = None" "samples s2 = []" "ticks_per_second s2 = hz"
    unfolding s2 using a by simp_all
  have c: "cpc s3 = JoinA" "t_start s3 = t0 + 1" "clock s3 = t0 + 101" "wpc s3 ThreadA = WPoll"
    "wpc s3 ThreadB = WPoll" "\<not> must_wait (barrier s3)"
    "\<forall>m. owner s3 m = None" "samples s3 = []" "ticks_per_second s3 = hz"
    unfolding s3_def using b
    by (simp_all add: step_def worker_step_def arrive_def must_wait_def)
  have d: "wpc s4 ThreadA = Finished \<and> (\<forall>m. owner s4 m = None) \<and> undisturbed ThreadA s3 s4"
    unfolding s4_def by (rule solo_run) (use c in simp_all)
  then have d': "wpc s4 ThreadB = WPoll" "\<not> must_wait (barrier s4)"
    using c by (simp_all add: undisturbed_def)
  have e: "wpc s5 ThreadB = Finished \<and> (\<forall>m. owner s5 m = None) \<and> undisturbed ThreadB s4 s5"
    unfolding s5_def by (rule solo_run) (use d d' in simp_all)
  have f: "cpc s5 = JoinA" "t_start s5 = t0 + 1" "clock s5 = t0 + 101"
    "wpc s5 ThreadA = Finished" "wpc s5 ThreadB = Finished" "samples s5 = []"
    "ticks_per_second s5 = hz"
    using c d e by (simp_all add: undisturbed_def)
  have g: "samples s6 = [elapsed_seconds hz 100]"
    unfolding s6_def using f by (simp add: step_def controller_step_def)
  show "cpc (run sc early_start (benchmark_init (Suc n) t0 hz)) = JoinA"
    "t_start (run sc early_start (benchmark_init (Suc n) t0 hz)) = t0 + 1"
    using a by (simp_all only: s1_def)
  have "run sc (early_start @ replicate 100 Tick) (benchmark_init (Suc n) t0 hz) = s2"
    by (simp only: run_append s1_def s2_def)
  then show "wpc (run sc (early_start @ replicate 100 Tick) (benchmark_init (Suc n) t0 hz)) ThreadB
      = WArrive"
    "clock (run sc (early_start @ replicate 100 Tick) (benchmark_init (Suc n) t0 hz)) = t0 + 101"
    using b by simp_all
  have "run sc (late_worker sc) (benchmark_init (Suc n) t0 hz) = s6"
    by (simp only: late_worker_def run_append s1_def s2_def s3_def s4_def s5_def s6_def)
  then show "samples (run sc (late_worker sc) (benchmark_init (Suc n) t0 hz))
      = [elapsed_seconds hz 100]"
    using g by simp
qed

text \<open>
  With a barrier of size 3, as in \<^verbatim>\<open>BM_falseSharing\<close>, \<^verbatim>\<open>BM_noFalseSharing\<close> and
  \<^verbatim>\<open>BM_useMutex\<close>, the controller reads the start time only when both workers have
  executed the increment of their \<^verbatim>\<open>arriveAndWait()\<close>, under every schedule.
\<close>

lemma start_after_all_arrived:
  assumes "barrier_size sc = 3"
    and "c_passed (cpc (run sc es (benchmark_init n t0 hz)))"
  shows "w_arrived (wpc (run sc es (benchmark_init n t0 hz)) w)"
proof -
  have "anyone_passed (run sc es (benchmark_init n t0 hz))"
    using assms(2) by (simp add: anyone_passed_def)
  from full_barrier_holds [OF assms(1) this] show ?thesis by (cases w) simp_all
qed

text \<open>
  Claim C9, evaluated on the code. In \<^verbatim>\<open>BM_useAtomic\<close> and \<^verbatim>\<open>BM_useMutexNoContention\<close>, whose
  barrier has size 2 for three arriving threads, the controller has left the barrier and
  read the start time 1 while worker \<open>b\<close> has not executed its \<^verbatim>\<open>arriveAndWait()\<close>; a
  hundred ticks later \<open>b\<close> still has not; and when the trial of one million iterations per
  worker is over the reported duration is 100 seconds at one tick per second: it contains
  the time worker \<open>b\<close> took to start, which the claim says every trial excludes.
\<close>

theorem undersized_barrier_sample_spans_startup:
  "cpc (run BM_useAtomic early_start (benchmark_init 1 0 1)) = JoinA \<and>
   t_start (run BM_useAtomic early_start (benchmark_init 1 0 1)) = 1 \<and>
   wpc (run BM_useAtomic (early_start @ replicate 100 Tick) (benchmark_init 1 0 1)) ThreadB =
     WArrive \<and>
   clock (run BM_useAtomic (early_start @ replicate 100 Tick) (benchmark_init 1 0 1)) = 101 \<and>
   samples (run BM_useAtomic (late_worker BM_useAtomic) (benchmark_init 1 0 1)) = [100] \<and>
   cpc (run BM_useMutexNoContention early_start (benchmark_init 1 0 1)) = JoinA \<and>
   t_start (run BM_useMutexNoContention early_start (benchmark_init 1 0 1)) = 1 \<and>
   wpc (run BM_useMutexNoContention (early_start @ replicate 100 Tick) (benchmark_init 1 0 1))
     ThreadB = WArrive \<and>
   clock (run BM_useMutexNoContention (early_start @ replicate 100 Tick) (benchmark_init 1 0 1)) =
     101 \<and>
   samples (run BM_useMutexNoContention (late_worker BM_useMutexNoContention)
     (benchmark_init 1 0 1)) = [100]"
proof -
  have a: "barrier_size BM_useAtomic = 2" by (simp add: BM_useAtomic_def)
  have m: "barrier_size BM_useMutexNoContention = 2" by (simp add: BM_useMutexNoContention_def)
  show ?thesis
    using late_worker_run [OF a, of 0 0 1] late_worker_run [OF m, of 0 0 1]
    by (simp add: elapsed_seconds_def del: run.simps)
qed

end
